theory Spec2Isabelle
  imports
    Main
    "HOL-Library.FSet"
    "HOL-Library.Sublist"
    "HOL-Library.Char_ord"
    "HOL-Library.List_Lexorder"
begin

section \<open>Names and the decimal rendering of loop counters\<close>

text \<open>
  Identifiers and program text are \<^typ>\<open>string\<close>s. The JavaScript sets of the compiler
  (\<open>reservedNames\<close>, \<open>userVars\<close>, \<open>usedNames\<close>, \<open>localUsedNames\<close>) are only ever
  extended and asked for membership, so they are finite sets; the maps \<open>aliases\<close> and
  \<open>templateVars\<close> are partial functions.

  The template literal \<open>`${name}_${i++}`\<close> renders the counter in decimal.
\<close>

definition digit :: "nat \<Rightarrow> char" where
  "digit d = ''0123456789'' ! d"

function decimal :: "nat \<Rightarrow> string" where
  "decimal n = (if n < 10 then [digit n] else decimal (n div 10) @ [digit (n mod 10)])"
  by pat_completeness auto
termination
  by (relation "measure id") auto

declare decimal.simps [simp del]

definition candidate :: "string \<Rightarrow> nat \<Rightarrow> string" where
  "candidate name i = name @ ''_'' @ decimal i"

lemma digit_inj_upto:
  "\<forall>a\<in>set [0..<10]. \<forall>b\<in>set [0..<10]. digit a = digit b \<longrightarrow> a = b"
  by code_simp

lemma digit_inj: "a < 10 \<Longrightarrow> b < 10 \<Longrightarrow> digit a = digit b \<Longrightarrow> a = b"
  using digit_inj_upto by simp

lemma decimal_nonempty: "decimal n \<noteq> []"
  by (subst decimal.simps) simp

lemma decimal_inj: "decimal n = decimal m \<Longrightarrow> n = m"
proof (induction n arbitrary: m rule: decimal.induct)
  case (1 n)
  show ?case
  proof (cases "n < 10")
    case True
    show ?thesis
    proof (cases "m < 10")
      case True
      with \<open>n < 10\<close> "1.prems" show ?thesis
        by (simp add: decimal.simps [of n] decimal.simps [of m] digit_inj)
    next
      case False
      with \<open>n < 10\<close> "1.prems" decimal_nonempty [of "m div 10"] show ?thesis
        by (simp add: decimal.simps [of n] decimal.simps [of m])
    qed
  next
    case False
    show ?thesis
    proof (cases "m < 10")
      case True
      with \<open>\<not> n < 10\<close> "1.prems" decimal_nonempty [of "n div 10"] show ?thesis
        by (simp add: decimal.simps [of n] decimal.simps [of m])
    next
      case mf: False
      from False mf "1.prems" have e: "decimal (n div 10) = decimal (m div 10)"
        and d: "digit (n mod 10) = digit (m mod 10)"
        by (simp_all add: decimal.simps [of n] decimal.simps [of m])
      from "1.IH" [OF False e] have "n div 10 = m div 10" .
      moreover from d have "n mod 10 = m mod 10"
        by (intro digit_inj) simp_all
      ultimately show ?thesis
        by (metis div_mult_mod_eq)
    qed
  qed
qed

lemma candidate_inj: "candidate name i = candidate name j \<Longrightarrow> i = j"
  by (simp add: candidate_def decimal_inj)

lemma finite_taken_candidates: "finite {j. candidate name j |\<in>| taken}"
proof -
  have "inj (candidate name)"
    by (rule injI) (rule candidate_inj)
  then have "finite (candidate name -` fset taken)"
    by (intro finite_vimageI) simp_all
  then show ?thesis
    by (simp add: vimage_def)
qed

text \<open>
  The number of candidates \<open>name_j\<close>, \<open>j \<ge> i\<close>, that are already taken: it bounds the
  number of iterations the deconfliction loop still has to make.
\<close>

definition pending :: "string fset \<Rightarrow> string \<Rightarrow> nat \<Rightarrow> nat" where
  "pending taken name i = card {j. i \<le> j \<and> candidate name j |\<in>| taken}"

lemma pending_step:
  "pending taken name i =
     pending taken name (Suc i) + (if candidate name i |\<in>| taken then 1 else 0)"
proof -
  let ?A = "{j. Suc i \<le> j \<and> candidate name j |\<in>| taken}"
  have fin: "finite ?A"
    by (rule finite_subset [OF _ finite_taken_candidates [of name taken]]) auto
  show ?thesis
  proof (cases "candidate name i |\<in>| taken")
    case True
    then have "{j. i \<le> j \<and> candidate name j |\<in>| taken} = insert i ?A"
      by (auto simp: Suc_le_eq order_le_less)
    with fin True show ?thesis
      by (simp add: pending_def)
  next
    case False
    then have "{j. i \<le> j \<and> candidate name j |\<in>| taken} = ?A"
      by (auto simp: Suc_le_eq order_le_less)
    with False show ?thesis
      by (simp add: pending_def)
  qed
qed

section \<open>The deconfliction loop\<close>

text \<open>
  The loop shared by \<open>getUniqueName\<close> and by the closure of \<open>getUniqueNameMaker\<close>:
  \<^verbatim>\<open>for (let i = 1; <alias is taken>; alias = `${name}_${i++}`);\<close>
  The condition of the source is a disjunction of \<open>has\<close> tests on two or three sets
  that the loop does not change; \<open>taken\<close> is their union. The loop ends because the
  candidates are pairwise different and \<open>taken\<close> is finite.
\<close>

function uniqueLoop :: "string fset \<Rightarrow> string \<Rightarrow> nat \<Rightarrow> string \<Rightarrow> string" where
  "uniqueLoop taken name i a =
     (if a |\<in>| taken then uniqueLoop taken name (Suc i) (candidate name i) else a)"
  by pat_completeness auto
termination
proof (relation "measure (\<lambda>(taken, name, i, a).
          pending taken name i + (if a |\<in>| taken then 1 else 0))")
  show "wf (measure (\<lambda>(taken, name, i, a).
          pending taken name i + (if a |\<in>| taken then 1 else 0)))"
    by simp
next
  fix taken :: "string fset" and name :: string and i :: nat and a :: string
  assume "a |\<in>| taken"
  then show "((taken, name, Suc i, candidate name i), (taken, name, i, a))
      \<in> measure (\<lambda>(taken, name, i, a).
          pending taken name i + (if a |\<in>| taken then 1 else 0))"
    by (simp add: pending_step [of taken name i])
qed

declare uniqueLoop.simps [simp del]

section \<open>Errors, the text buffer and the component\<close>

subsection \<open>Errors\<close>

text \<open>
  Whatever the source throws is a value of \<open>error\<close>, and a function that can throw
  returns \<open>error + 'a\<close>.

  Modelled from the spec: the helper \<open>utils/error\<close>, which \<open>Component.error\<close> calls with
  the message and \<open>{name: 'ValidationError', code, source, start, end, filename}\<close>, is not
  among the sources. The specification says that a fatal diagnostic is raised at once and
  ends the compilation of the unit, so the call is the thrown value \<open>ValidationError\<close>,
  which keeps the code, the message and the position.
\<close>

datatype error =
    ValidationError (error_code: string) (error_message: string) (error_start: nat) (error_end: nat)
  | TypeError
  | OutOfBounds
  | EndBeforeStart

subsection \<open>The text buffer of the magic-string library\<close>

text \<open>
  \<open>this.code\<close> is a \<open>MagicString\<close> over the source text. Of its interface the compiler
  uses here the constructor, \<open>remove\<close>, \<open>snip\<close> and \<open>toString\<close>. A buffer is the original
  text and, for every position of it, whether the character is still there. \<open>remove\<close>
  returns the buffer itself for an empty range, and throws for a range that leaves the
  original text or that ends before it starts; \<open>snip (a, b)\<close> is a copy from which
  \<open>(0, a)\<close> and \<open>(b, length)\<close> have been removed.
\<close>

record magic_string =
  original :: string
  kept :: "bool list"

definition MagicString :: "string \<Rightarrow> magic_string" where
  "MagicString str = \<lparr>original = str, kept = replicate (length str) True\<rparr>"

definition remove :: "nat \<Rightarrow> nat \<Rightarrow> magic_string \<Rightarrow> error + magic_string" where
  "remove a b m =
     (if a = b then Inr m
      else if length (original m) < b then Inl OutOfBounds
      else if b < a then Inl EndBeforeStart
      else Inr (m\<lparr>kept := take a (kept m) @ replicate (b - a) False @ drop b (kept m)\<rparr>))"

definition snip :: "nat \<Rightarrow> nat \<Rightarrow> magic_string \<Rightarrow> error + magic_string" where
  "snip a b m =
     (case remove 0 a m of
        Inl e \<Rightarrow> Inl e
      | Inr m' \<Rightarrow> remove b (length (original m')) m')"

definition toString :: "magic_string \<Rightarrow> string" where
  "toString m = map fst (filter snd (zip (original m) (kept m)))"

subsection \<open>The component\<close>

text \<open>
  The fields of \<open>Component\<close> that the functions below read or write. \<open>makers\<close> holds,
  in the order of creation, the set \<open>localUsedNames\<close> that each closure returned by
  \<open>getUniqueNameMaker\<close> has captured: the closure is its index. \<open>warnings\<close> is the
  accumulator behind \<open>this.stats.warn\<close>.
\<close>

datatype category = Components | Helpers | Events | Animations | Transitions | Actions

datatype property =
  Property (key_name: string) (prop_start: nat) (prop_end: nat) (value_properties: "property list")

record callee =
  callee_start :: nat
  callee_end :: nat
  parts :: "string list"

record warning =
  warning_code :: string
  warning_message :: string
  frame :: string
  warning_start :: "int \<times> int"
  warning_end :: "int \<times> int"
  pos :: nat
  warning_filename :: "string option"

record component =
  source :: string
  filename :: "string option"
  component_name :: string
  code_buffer :: magic_string
  userVars :: "string fset"
  templateVars :: "string \<rightharpoonup> string"
  aliases :: "string \<rightharpoonup> string"
  usedNames :: "string fset"
  makers :: "string fset list"
  declarations :: "string list"
  defaultExport :: "property list option"
  used :: "category \<Rightarrow> string fset"
  refs :: "string list"
  refCallees :: "callee list"
  warnings :: "warning list"

text \<open>
  The constructor's initialisation of these fields (empty sets, maps and lists), for the
  source text and \<open>options.filename\<close> it is given. \<open>this.name\<close> is assigned later,
  and nothing in these sources ever assigns \<open>this.defaultExport\<close>.
\<close>

definition newComponent :: "string \<Rightarrow> string option \<Rightarrow> component" where
  "newComponent src file =
     \<lparr>source = src, filename = file, component_name = [], code_buffer = MagicString src,
      userVars = {||}, templateVars = Map.empty, aliases = Map.empty, usedNames = {||},
      makers = [], declarations = [], defaultExport = None, used = (\<lambda>_. {||}),
      refs = [], refCallees = [], warnings = []\<rparr>"

section \<open>The alias registry: \<open>getUniqueName\<close>, \<open>alias\<close>, \<open>getUniqueNameMaker\<close>\<close>

text \<open>
  \<open>reservedNames\<close> (\<open>utils/reservedNames\<close>) and the flag \<open>test\<close> (\<open>config\<close>) are imported
  constants whose values are not among the sources: they are parameters.
\<close>

definition getUniqueName ::
  "string fset \<Rightarrow> bool \<Rightarrow> component \<Rightarrow> string \<Rightarrow> string \<times> component" where
  "getUniqueName reservedNames test c name0 =
     (let name = (if test then name0 @ ''$'' else name0);
          a = uniqueLoop (reservedNames |\<union>| userVars c |\<union>| usedNames c) name 1 name
      in (a, c\<lparr>usedNames := finsert a (usedNames c)\<rparr>))"

text \<open>\<open>alias\<close> is a keyword of the proof language, hence the prime.\<close>

definition alias' ::
  "string fset \<Rightarrow> bool \<Rightarrow> component \<Rightarrow> string \<Rightarrow> string \<times> component" where
  "alias' reservedNames test c name =
     (case aliases c name of
        None \<Rightarrow>
          (let (a, c') = getUniqueName reservedNames test c name
           in (a, c'\<lparr>aliases := (aliases c')(name \<mapsto> a)\<rparr>))
      | Some a \<Rightarrow> (a, c))"

definition getUniqueNameMaker :: "string fset \<Rightarrow> component \<Rightarrow> nat \<times> component" where
  "getUniqueNameMaker reservedNames c =
     (length (makers c), c\<lparr>makers := makers c @ [reservedNames |\<union>| userVars c]\<rparr>)"

text \<open>
  A call of the closure number \<open>k\<close>. It reads \<open>this.usedNames\<close> as it is at the call and
  writes its own \<open>localUsedNames\<close> only. There is no result for an index that no call of
  \<open>getUniqueNameMaker\<close> has returned.
\<close>

definition callMaker ::
  "bool \<Rightarrow> component \<Rightarrow> nat \<Rightarrow> string \<Rightarrow> (string \<times> component) option" where
  "callMaker test c k name0 =
     (if k < length (makers c) then
        (let name = (if test then name0 @ ''$'' else name0);
             localUsedNames = makers c ! k;
             a = uniqueLoop (usedNames c |\<union>| localUsedNames) name 1 name
         in Some (a, c\<lparr>makers := (makers c)[k := finsert a localUsedNames]\<rparr>))
      else None)"

text \<open>Sequences of allocation requests against one registry.\<close>

datatype request = Alias string | GetUniqueName string

fun allocate ::
  "string fset \<Rightarrow> bool \<Rightarrow> component \<Rightarrow> request \<Rightarrow> string \<times> component" where
  "allocate reservedNames test c (Alias name) = alias' reservedNames test c name"
| "allocate reservedNames test c (GetUniqueName name) = getUniqueName reservedNames test c name"

fun allocateAll ::
  "string fset \<Rightarrow> bool \<Rightarrow> component \<Rightarrow> request list \<Rightarrow> string list \<times> component" where
  "allocateAll reservedNames test c [] = ([], c)"
| "allocateAll reservedNames test c (r # rs) =
     (let (a, c') = allocate reservedNames test c r;
          (as, c'') = allocateAll reservedNames test c' rs
      in (a # as, c''))"

text \<open>
  Any interleaving of the four operations of the registry; \<open>perform\<close> gives the
  component afterwards (a call of a closure that does not exist changes nothing).
\<close>

datatype operation =
    DoAlias string
  | DoGetUniqueName string
  | DoGetUniqueNameMaker
  | DoCallMaker nat string

fun perform :: "string fset \<Rightarrow> bool \<Rightarrow> component \<Rightarrow> operation \<Rightarrow> component" where
  "perform reservedNames test c (DoAlias name) = snd (alias' reservedNames test c name)"
| "perform reservedNames test c (DoGetUniqueName name) =
     snd (getUniqueName reservedNames test c name)"
| "perform reservedNames test c DoGetUniqueNameMaker = snd (getUniqueNameMaker reservedNames c)"
| "perform reservedNames test c (DoCallMaker k name) =
     (case callMaker test c k name of None \<Rightarrow> c | Some (a, c') \<Rightarrow> c')"

definition performAll ::
  "string fset \<Rightarrow> bool \<Rightarrow> component \<Rightarrow> operation list \<Rightarrow> component" where
  "performAll reservedNames test c ops = foldl (perform reservedNames test) c ops"

text \<open>
  The invariant of the registry: every emitted alias is recorded in \<open>usedNames\<close>, is
  neither reserved nor a user name, and belongs to one logical name only. And what a
  closure of \<open>getUniqueNameMaker\<close> keeps: its private set contains the reserved and the
  user names.
\<close>

definition registry_ok :: "string fset \<Rightarrow> component \<Rightarrow> bool" where
  "registry_ok reservedNames c \<longleftrightarrow>
     (\<forall>x a. aliases c x = Some a \<longrightarrow>
        a |\<in>| usedNames c \<and> a |\<notin>| reservedNames \<and> a |\<notin>| userVars c)
     \<and> (\<forall>x y a. aliases c x = Some a \<longrightarrow> aliases c y = Some a \<longrightarrow> x = y)"

definition maker_ok :: "string fset \<Rightarrow> component \<Rightarrow> nat \<Rightarrow> bool" where
  "maker_ok reservedNames c k \<longleftrightarrow>
     k < length (makers c) \<and> reservedNames |\<union>| userVars c |\<subseteq>| makers c ! k"

section \<open>The constructor: \<open>walkJs\<close> and the component's name\<close>

text \<open>
  The script of the component, as far as \<open>walkJs\<close> reads it: the statements of
  \<open>js.content.body\<close> (a default export with the properties of the object it exports,
  an import with the local names of its specifiers, or anything else, each with its
  \<open>start\<close> and \<open>end\<close>), and what
  \<open>createScopes (js.content)\<close> returns for it, the declarations of the top scope and the
  globals. \<open>createScopes\<close> and \<open>removeNode\<close> are not among the sources: the former's
  result is part of the input, the latter is a parameter that edits the text buffer.
\<close>

datatype node =
    ExportDefaultDeclaration nat nat "property list"
  | ImportDeclaration nat nat "string list"
  | OtherStatement nat nat

record script =
  scope_declarations :: "string list"
  globals :: "string list"
  body :: "node list"

text \<open>
  \<open>body.forEach\<close>: a default export raises \<open>default-export\<close>; an import is taken out of
  the buffer and its local names become user names.
\<close>

fun walkBody ::
  "(magic_string \<Rightarrow> node \<Rightarrow> magic_string) \<Rightarrow> component \<Rightarrow> node list \<Rightarrow> error + component" where
  "walkBody removeNode c [] = Inr c"
| "walkBody removeNode c (ExportDefaultDeclaration s e properties # rest) =
     Inl (ValidationError ''default-export'' ''A component cannot have a default export'' s e)"
| "walkBody removeNode c (ImportDeclaration s e specifiers # rest) =
     walkBody removeNode
       (c\<lparr>code_buffer := removeNode (code_buffer c) (ImportDeclaration s e specifiers),
          userVars := userVars c |\<union>| fset_of_list specifiers\<rparr>) rest"
| "walkBody removeNode c (OtherStatement s e # rest) = walkBody removeNode c rest"

text \<open>
  \<open>walkJs\<close>. A component without a script is left as it is. Otherwise the indentation
  is read at \<open>js.content.body[0].start\<close>, which is a \<open>TypeError\<close> for a script without
  statements, before anything is changed. Then the declarations and the globals become
  user names, and the body is walked. The source-map locations and the field
  \<open>javascript\<close> that \<open>walkJs\<close> also computes cannot throw, and no function below reads
  them.
\<close>

definition walkJs ::
  "(magic_string \<Rightarrow> node \<Rightarrow> magic_string) \<Rightarrow> component \<Rightarrow> script option \<Rightarrow> error + component" where
  "walkJs removeNode c js =
     (case js of
        None \<Rightarrow> Inr c
      | Some j \<Rightarrow>
          if body j = [] then Inl TypeError
          else
            walkBody removeNode
              (c\<lparr>userVars := userVars c |\<union>| fset_of_list (scope_declarations j)
                                |\<union>| fset_of_list (globals j),
                 declarations := declarations c @ scope_declarations j\<rparr>)
              (body j))"

text \<open>
  The constructor up to \<open>this.name = this.alias (name)\<close>: the fields are initialised,
  \<open>walkJs\<close> runs, and the requested name is aliased. (The style sheet, built in between,
  is an external collaborator.) The generated class is declared as
  \<open>class ${name} extends @SvelteComponent\<close> with \<open>name\<close> read from \<open>component.name\<close>.
\<close>

definition construct ::
  "string fset \<Rightarrow> bool \<Rightarrow> (magic_string \<Rightarrow> node \<Rightarrow> magic_string) \<Rightarrow>
   string \<Rightarrow> string option \<Rightarrow> script option \<Rightarrow> string \<Rightarrow> error + component" where
  "construct reservedNames test removeNode src file js name =
     (case walkJs removeNode (newComponent src file) js of
        Inl e \<Rightarrow> Inl e
      | Inr c \<Rightarrow>
          (let (a, c') = alias' reservedNames test c name
           in Inr (c'\<lparr>component_name := a\<rparr>)))"

text \<open>The local names of all the imports of a script body.\<close>

fun importNames :: "node list \<Rightarrow> string list" where
  "importNames [] = []"
| "importNames (ImportDeclaration s e specifiers # rest) = specifiers @ importNames rest"
| "importNames (n # rest) = importNames rest"

text \<open>Whether a statement of a script body is a default export.\<close>

fun isDefaultExport :: "node \<Rightarrow> bool" where
  "isDefaultExport (ExportDefaultDeclaration s e properties) = True"
| "isDefaultExport n = False"

section \<open>The constructor: unused definitions and missing refs\<close>

text \<open>
  The keys of \<open>this.used\<close> and of the table \<open>categories\<close> are the values of \<open>category\<close>;
  \<open>category_key\<close> is the key as a string. The table of the constructor has five entries.
\<close>

fun category_key :: "category \<Rightarrow> string" where
  "category_key Components = ''components''"
| "category_key Helpers = ''helpers''"
| "category_key Events = ''events''"
| "category_key Animations = ''animations''"
| "category_key Transitions = ''transitions''"
| "category_key Actions = ''actions''"

definition categories :: "(category \<times> string) list" where
  "categories =
     [(Components, ''component''), (Helpers, ''helper''), (Events, ''event definition''),
      (Transitions, ''transition''), (Actions, ''actions'')]"

definition quote :: string where
  "quote = [CHR 0x27]"

text \<open>
  \<open>Component.warn\<close>. The locator (\<open>getLocator\<close> of locate-character, for this source)
  and \<open>getCodeFrame\<close> are parameters.

  Modelled from the spec: \<open>Stats.warn\<close> is not among the sources. The specification says
  that a non-fatal diagnostic is appended to an accumulator, which is \<open>warnings\<close> here.
\<close>

definition warn ::
  "(nat \<Rightarrow> int \<times> int) \<Rightarrow> (string \<Rightarrow> int \<Rightarrow> int \<Rightarrow> string) \<Rightarrow>
   component \<Rightarrow> nat \<Rightarrow> nat \<Rightarrow> string \<Rightarrow> string \<Rightarrow> component" where
  "warn locator getCodeFrame c pos_start pos_end wcode wmessage =
     (let st = locator pos_start;
          en = locator pos_end;
          fr = getCodeFrame (source c) (fst st - 1) (snd st)
      in c\<lparr>warnings := warnings c @
           [\<lparr>warning_code = wcode, warning_message = wmessage, frame = fr,
             warning_start = st, warning_end = en, pos = pos_start,
             warning_filename = filename c\<rparr>]\<rparr>)"

text \<open>The two nested \<open>forEach\<close> loops of the constructor over the default export.\<close>

fun warnProperties ::
  "(nat \<Rightarrow> int \<times> int) \<Rightarrow> (string \<Rightarrow> int \<Rightarrow> int \<Rightarrow> string) \<Rightarrow>
   component \<Rightarrow> category \<Rightarrow> string \<Rightarrow> property list \<Rightarrow> component" where
  "warnProperties locator getCodeFrame c cat label [] = c"
| "warnProperties locator getCodeFrame c cat label (p # ps) =
     warnProperties locator getCodeFrame
       (if key_name p |\<notin>| used c cat then
          warn locator getCodeFrame c (prop_start p) (prop_end p)
            (''unused-'' @ butlast (category_key cat))
            (''The '' @ quote @ key_name p @ quote @ '' '' @ label @ '' is unused'')
        else c)
       cat label ps"

fun warnCategories ::
  "(nat \<Rightarrow> int \<times> int) \<Rightarrow> (string \<Rightarrow> int \<Rightarrow> int \<Rightarrow> string) \<Rightarrow>
   component \<Rightarrow> property list \<Rightarrow> (category \<times> string) list \<Rightarrow> component" where
  "warnCategories locator getCodeFrame c props [] = c"
| "warnCategories locator getCodeFrame c props ((cat, label) # rest) =
     warnCategories locator getCodeFrame
       (case find (\<lambda>prop. key_name prop = category_key cat) props of
          None \<Rightarrow> c
        | Some definitions \<Rightarrow>
            warnProperties locator getCodeFrame c cat label (value_properties definitions))
       props rest"

definition warnUnused ::
  "(nat \<Rightarrow> int \<times> int) \<Rightarrow> (string \<Rightarrow> int \<Rightarrow> int \<Rightarrow> string) \<Rightarrow> component \<Rightarrow> component" where
  "warnUnused locator getCodeFrame c =
     (case defaultExport c of
        None \<Rightarrow> c
      | Some props \<Rightarrow> warnCategories locator getCodeFrame c props categories)"

text \<open>
  The check of \<open>this.refCallees\<close>. A callee is kept as the \<open>parts\<close> that
  \<open>flattenReference\<close> (not among the sources) gives for it, with its position; \<open>refs\<close>
  lists \<open>this.refs\<close> in insertion order. \<open>fuzzymatch\<close> is not among the sources
  either: it is a parameter, from the requested name and the declared refs to a
  suggestion or none.

  \<open>parts[1]\<close> is \<open>undefined\<close> when the callee has fewer than two parts. Then
  \<open>this.refs.has\<close> is false and \<open>fuzzymatch\<close> is called with \<open>undefined\<close> where it
  expects a string: a \<open>TypeError\<close>, and no diagnostic.
\<close>

definition refName :: "callee \<Rightarrow> string option" where
  "refName cl = (case parts cl of a # r # rest \<Rightarrow> Some r | _ \<Rightarrow> None)"

definition missingRefMessage :: "string \<Rightarrow> string option \<Rightarrow> string" where
  "missingRefMessage r match =
     quote @ ''refs.'' @ r @ quote @ '' does not exist'' @
     (case match of
        None \<Rightarrow> []
      | Some m \<Rightarrow>
          if m = [] then []
          else '' (did you mean '' @ quote @ ''refs.'' @ m @ quote @ ''?)'')"

fun checkRefs ::
  "(string \<Rightarrow> string list \<Rightarrow> string option) \<Rightarrow> string list \<Rightarrow> callee list \<Rightarrow> error + unit" where
  "checkRefs fuzzymatch rs [] = Inr ()"
| "checkRefs fuzzymatch rs (cl # rest) =
     (case refName cl of
        None \<Rightarrow> Inl TypeError
      | Some r \<Rightarrow>
          if r \<in> set rs then checkRefs fuzzymatch rs rest
          else Inl (ValidationError ''missing-ref''
                      (missingRefMessage r (fuzzymatch r rs))
                      (callee_start cl) (callee_end cl)))"


section \<open>\<open>generate\<close>: sigils\<close>

text \<open>
  Program text is a \<^typ>\<open>string\<close>; the scissors character of the span markers is written
  as the three bytes of its UTF-8 encoding, so the text is the UTF-8 form of the
  JavaScript string (offsets into it count the characters of the model).

  The character classes \<open>\w\<close> and \<open>\d\<close> of the regular expressions:
\<close>

definition is_word :: "char \<Rightarrow> bool" where
  "is_word ch \<longleftrightarrow>
     ch \<in> set (''abcdefghijklmnopqrstuvwxyz'' @ ''ABCDEFGHIJKLMNOPQRSTUVWXYZ'' @ ''0123456789_'')"

definition is_digit :: "char \<Rightarrow> bool" where
  "is_digit ch \<longleftrightarrow> ch \<in> set ''0123456789''"

text \<open>
  One match of \<open>/(%+|@+)(\w*(?:-\w*)?)/\<close> (for \<open>ssr\<close>, of
  \<open>/(@+|#+|%+)(\w*(?:-\w*)?)/\<close>) at the head of the text: the longest run of one sigil
  character, then the longest run of word characters, then, if a hyphen follows, the
  hyphen and the longest run of word characters after it. The result is the sigil, the
  name and the text after the match.
\<close>

definition sigilChars :: "bool \<Rightarrow> string" where
  "sigilChars ssr = (if ssr then ''@#%'' else ''%@'')"

definition matchSigil :: "bool \<Rightarrow> string \<Rightarrow> (string \<times> string \<times> string) option" where
  "matchSigil ssr s =
     (case s of
        [] \<Rightarrow> None
      | ch # rest \<Rightarrow>
          if ch \<in> set (sigilChars ssr) then
            (let sigil = ch # takeWhile (\<lambda>d. d = ch) rest;
                 r0 = dropWhile (\<lambda>d. d = ch) rest;
                 w = takeWhile is_word r0;
                 r1 = dropWhile is_word r0
             in case r1 of
                  [] \<Rightarrow> Some (sigil, w, r1)
                | d # r2 \<Rightarrow>
                    if d = CHR ''-''
                    then Some (sigil, w @ ''-'' @ takeWhile is_word r2, dropWhile is_word r2)
                    else Some (sigil, w, r1))
          else None)"

lemma matchSigil_shorter:
  assumes "matchSigil ssr s = Some (sigil, name, r)"
  shows "length r < length s"
proof (cases s)
  case Nil
  with assms show ?thesis by (simp add: matchSigil_def)
next
  case (Cons ch rest)
  define r1 where "r1 = dropWhile is_word (dropWhile (\<lambda>d. d = ch) rest)"
  have le: "length r1 \<le> length rest"
    unfolding r1_def by (meson length_dropWhile_le order_trans)
  from assms Cons have m: "(case r1 of
        [] \<Rightarrow> Some (ch # takeWhile (\<lambda>d. d = ch) rest,
                 takeWhile is_word (dropWhile (\<lambda>d. d = ch) rest), r1)
      | d # r2 \<Rightarrow>
          if d = CHR ''-''
          then Some (ch # takeWhile (\<lambda>d. d = ch) rest,
                 takeWhile is_word (dropWhile (\<lambda>d. d = ch) rest) @ ''-'' @ takeWhile is_word r2,
                 dropWhile is_word r2)
          else Some (ch # takeWhile (\<lambda>d. d = ch) rest,
                 takeWhile is_word (dropWhile (\<lambda>d. d = ch) rest), r1))
     = Some (sigil, name, r)"
    unfolding r1_def by (simp add: matchSigil_def Let_def split: if_splits)
  show ?thesis
  proof (cases r1)
    case Nil
    with m Cons show ?thesis by simp
  next
    case c: (Cons d r2)
    have "length (dropWhile is_word r2) \<le> length r2"
      by (rule length_dropWhile_le)
    with le c m Cons show ?thesis
      by (auto split: if_splits)
  qed
qed

text \<open>
  The global search of \<open>String.replace\<close>: where the expression matches, the match; where
  it does not, the character is copied and the search moves on by one.
\<close>

datatype piece = Copied char | Matched string string

function pieces :: "bool \<Rightarrow> string \<Rightarrow> piece list" where
  "pieces ssr [] = []"
| "pieces ssr (ch # rest) =
     (case matchSigil ssr (ch # rest) of
        None \<Rightarrow> Copied ch # pieces ssr rest
      | Some (sigil, name, r) \<Rightarrow> Matched sigil name # pieces ssr r)"
  by pat_completeness auto
termination
  by (relation "measure (\<lambda>(ssr, s). length s)") (auto dest: matchSigil_shorter)

text \<open>
  The callback of the replacement. \<open>shared\<close> (the catalogue of runtime helpers, tested
  with \<open>name in shared\<close>) is not among the sources and is a parameter, as is
  \<open>options.dev\<close>. The set \<open>helpers\<close> is kept in insertion order. A callback that returns
  \<open>undefined\<close>, as \<open>Map.get\<close> does for a missing key, makes \<open>replace\<close> insert the text
  \<open>undefined\<close>.
\<close>

definition printed :: "string option \<Rightarrow> string" where
  "printed v = (case v of None \<Rightarrow> ''undefined'' | Some s \<Rightarrow> s)"

definition addHelper :: "string \<Rightarrow> string list \<Rightarrow> string list" where
  "addHelper name hs = (if name \<in> set hs then hs else hs @ [name])"

definition replacer ::
  "string fset \<Rightarrow> bool \<Rightarrow> string fset \<Rightarrow> bool \<Rightarrow> component \<times> string list \<Rightarrow>
   string \<Rightarrow> string \<Rightarrow> string \<times> component \<times> string list" where
  "replacer shared dev reservedNames test st sigil name0 =
     (case st of (c, hs) \<Rightarrow>
        if sigil = ''@'' then
          (let name = (if name0 |\<in>| shared \<and> dev \<and> (name0 @ ''Dev'') |\<in>| shared
                       then name0 @ ''Dev'' else name0);
               hs' = (if name0 |\<in>| shared then addHelper name hs else hs);
               (a, c') = alias' reservedNames test c name
           in (a, c', hs'))
        else if sigil = ''%'' then (printed (templateVars c name0), c, hs)
        else (tl sigil @ name0, c, hs))"

fun replaceAll ::
  "string fset \<Rightarrow> bool \<Rightarrow> string fset \<Rightarrow> bool \<Rightarrow> component \<times> string list \<Rightarrow>
   piece list \<Rightarrow> string \<times> component \<times> string list" where
  "replaceAll shared dev reservedNames test st [] = ([], st)"
| "replaceAll shared dev reservedNames test st (Copied ch # ps) =
     (let (out, st') = replaceAll shared dev reservedNames test st ps in (ch # out, st'))"
| "replaceAll shared dev reservedNames test st (Matched sigil name # ps) =
     (let (text, st1) = replacer shared dev reservedNames test st sigil name;
          (out, st2) = replaceAll shared dev reservedNames test st1 ps
      in (text @ out, st2))"

definition substitute ::
  "bool \<Rightarrow> string fset \<Rightarrow> bool \<Rightarrow> string fset \<Rightarrow> bool \<Rightarrow> component \<Rightarrow> string \<Rightarrow>
   string \<times> component \<times> string list" where
  "substitute ssr shared dev reservedNames test c template =
     replaceAll shared dev reservedNames test (c, []) (pieces ssr template)"

text \<open>
  \<open>importedHelpers\<close>: the helpers and \<open>SvelteComponent\<close>, sorted, each with its alias.
\<close>

fun aliasEach ::
  "string fset \<Rightarrow> bool \<Rightarrow> component \<Rightarrow> string list \<Rightarrow> (string \<times> string) list \<times> component" where
  "aliasEach reservedNames test c [] = ([], c)"
| "aliasEach reservedNames test c (name # names) =
     (let (a, c') = alias' reservedNames test c name;
          (rest, c'') = aliasEach reservedNames test c' names
      in ((name, a) # rest, c''))"

definition importedHelpers ::
  "string fset \<Rightarrow> bool \<Rightarrow> component \<Rightarrow> string list \<Rightarrow> (string \<times> string) list \<times> component" where
  "importedHelpers reservedNames test c hs =
     aliasEach reservedNames test c (sort (hs @ [''SvelteComponent'']))"

section \<open>\<open>generate\<close>: span markers and the bundle\<close>

definition scissors :: string where
  "scissors = [CHR 0xE2, CHR 0x9C, CHR 0x82]"

definition opener :: string where
  "opener = ''['' @ scissors"

definition closer :: string where
  "closer = scissors @ '']''"

text \<open>\<open>String.split\<close> for a separator that is not empty.\<close>

function splitOn :: "string \<Rightarrow> string \<Rightarrow> string list" where
  "splitOn sep [] = [[]]"
| "splitOn sep (ch # rest) =
     (if sep \<noteq> [] \<and> prefix sep (ch # rest)
      then [] # splitOn sep (drop (length sep) (ch # rest))
      else (case splitOn sep rest of
              [] \<Rightarrow> [[ch]]
            | p # ps \<Rightarrow> (ch # p) # ps))"
  by pat_completeness auto
termination
  by (relation "measure (\<lambda>(sep, s). length s)") auto

text \<open>
  \<open>/\[(scissors)(\d+)-(\d+)$/\<close>: a match at the head of the text, and the leftmost
  match in the text, which is what \<open>exec\<close> finds and what \<open>replace\<close> removes. As the
  match runs to the end of the text, removing it leaves the text before it. The result
  is that text and the two digit strings.
\<close>

definition matchHere :: "string \<Rightarrow> (string \<times> string) option" where
  "matchHere s =
     (if prefix opener s then
        (let r = drop (length opener) s;
             d1 = takeWhile is_digit r;
             r1 = dropWhile is_digit r
         in case r1 of
              [] \<Rightarrow> None
            | ch # r2 \<Rightarrow>
                if ch = CHR ''-'' \<and> d1 \<noteq> [] \<and> r2 \<noteq> [] \<and> dropWhile is_digit r2 = []
                then Some (d1, r2) else None)
      else None)"

fun execPattern :: "string \<Rightarrow> (string \<times> string \<times> string) option" where
  "execPattern [] = None"
| "execPattern (ch # rest) =
     (case matchHere (ch # rest) of
        Some (d1, d2) \<Rightarrow> Some ([], d1, d2)
      | None \<Rightarrow>
          (case execPattern rest of
             None \<Rightarrow> None
           | Some (before, d1, d2) \<Rightarrow> Some (ch # before, d1, d2)))"

text \<open>
  The unary plus on a string of decimal digits (exact here; JavaScript numbers are
  exact up to \<open>2\<^sup>5\<^sup>3\<close>).
\<close>

definition digitValue :: "char \<Rightarrow> nat" where
  "digitValue ch = length (takeWhile (\<lambda>d. d \<noteq> ch) ''0123456789'')"

definition toNumber :: "string \<Rightarrow> nat" where
  "toNumber ds = foldl (\<lambda>n ch. 10 * n + digitValue ch) 0 ds"

text \<open>
  The sources of the \<open>Bundle\<close>, in the order of the \<open>addSource\<close> calls, each with its
  optional file name and its content; \<open>addString\<close> adds a source without a file name.
\<close>

record source_entry =
  entry_filename :: "string option"
  content :: magic_string

definition addString :: "string \<Rightarrow> source_entry" where
  "addString str = \<lparr>entry_filename = None, content = MagicString str\<rparr>"

text \<open>
  \<open>parts.forEach\<close>: \<open>match[1]\<close> on a part that the pattern does not match is a
  \<open>TypeError\<close>, and \<open>snip\<close> can throw.
\<close>

fun addParts :: "string option \<Rightarrow> magic_string \<Rightarrow> string list \<Rightarrow> error + source_entry list" where
  "addParts file buffer [] = Inr []"
| "addParts file buffer (str # strs) =
     (case execPattern str of
        None \<Rightarrow> Inl TypeError
      | Some (chunk, d1, d2) \<Rightarrow>
          (case snip (toNumber d1) (toNumber d2) buffer of
             Inl e \<Rightarrow> Inl e
           | Inr snippet \<Rightarrow>
               (case addParts file buffer strs of
                  Inl e \<Rightarrow> Inl e
                | Inr entries \<Rightarrow>
                    Inr ((if chunk \<noteq> [] then [addString chunk] else [])
                         @ \<lparr>entry_filename = file, content = snippet\<rparr> # entries))))"

text \<open>
  From \<open>module.split\<close> to the last \<open>addString\<close>: the sources of \<open>compiled\<close>.
\<close>

definition assemble :: "component \<Rightarrow> string \<Rightarrow> error + source_entry list" where
  "assemble c module =
     (let ps = splitOn closer module;
          finalChunk = last ps;
          strs = butlast ps
      in case (if strs = []
               then (case remove 0 (length (source c)) (MagicString (source c)) of
                       Inl e \<Rightarrow> Inl e
                     | Inr emptied \<Rightarrow> Inr [\<lparr>entry_filename = filename c, content = emptied\<rparr>])
               else Inr []) of
           Inl e \<Rightarrow> Inl e
         | Inr first \<Rightarrow>
             (case addParts (filename c) (code_buffer c) strs of
                Inl e \<Rightarrow> Inl e
              | Inr entries \<Rightarrow> Inr (first @ entries @ [addString finalChunk])))"

text \<open>
  What the bundle gives back. With the empty separator, \<open>compiled.toString ()\<close> is the
  contents one after the other. \<open>generateMap\<close> lists in \<open>sources\<close> and \<open>sourcesContent\<close>
  each named source once, with the original text of its content.
\<close>

definition bundleText :: "source_entry list \<Rightarrow> string" where
  "bundleText entries = concat (map (\<lambda>e. toString (content e)) entries)"

definition mapSources :: "source_entry list \<Rightarrow> (string \<times> string) list" where
  "mapSources entries =
     remdups (concat (map (\<lambda>e. case entry_filename e of
                                  None \<Rightarrow> []
                                | Some f \<Rightarrow> if f = [] then [] else [(f, original (content e))])
                          entries))"

text \<open>
  \<open>generate\<close>. \<open>wrapModule\<close> is not among the sources: it is a parameter, from the
  substituted text and the imported helpers to the module text (its other arguments are
  fixed for a compilation). The result is \<open>js.code\<close>, the sources behind \<open>js.map\<close>, and
  the component afterwards.
\<close>

record generated =
  js_code :: string
  js_sources :: "source_entry list"

definition moduleText ::
  "bool \<Rightarrow> string fset \<Rightarrow> bool \<Rightarrow> string fset \<Rightarrow> bool \<Rightarrow>
   (string \<Rightarrow> (string \<times> string) list \<Rightarrow> string) \<Rightarrow> component \<Rightarrow> string \<Rightarrow> string \<times> component" where
  "moduleText ssr shared dev reservedNames test wrapModule c template =
     (case substitute ssr shared dev reservedNames test c template of
        (result, c1, hs) \<Rightarrow>
          (case importedHelpers reservedNames test c1 hs of
             (imported, c2) \<Rightarrow> (wrapModule result imported, c2)))"

definition generate ::
  "bool \<Rightarrow> string fset \<Rightarrow> bool \<Rightarrow> string fset \<Rightarrow> bool \<Rightarrow>
   (string \<Rightarrow> (string \<times> string) list \<Rightarrow> string) \<Rightarrow> component \<Rightarrow> string \<Rightarrow>
   error + generated \<times> component" where
  "generate ssr shared dev reservedNames test wrapModule c template =
     (case moduleText ssr shared dev reservedNames test wrapModule c template of
        (module, c') \<Rightarrow>
          (case assemble c' module of
             Inl e \<Rightarrow> Inl e
           | Inr entries \<Rightarrow>
               Inr (\<lparr>js_code = bundleText entries, js_sources = entries\<rparr>, c')))"



text \<open>The characters of the range \<open>[a, b)\<close> of the original text that the buffer still has.\<close>

definition keptRange :: "magic_string \<Rightarrow> nat \<Rightarrow> nat \<Rightarrow> string" where
  "keptRange m a b = map fst (filter snd (take (b - a) (drop a (zip (original m) (kept m)))))"

text \<open>
  The buffer that \<open>snip (a, b)\<close> returns for a range inside the text: everything
  before \<open>a\<close> and from \<open>b\<close> on is removed.
\<close>

definition snippet :: "magic_string \<Rightarrow> nat \<Rightarrow> nat \<Rightarrow> magic_string" where
  "snippet m a b =
     m\<lparr>kept := replicate a False @ take (b - a) (drop a (kept m))
                @ replicate (length (original m) - b) False\<rparr>"


section \<open>Properties of the alias registry\<close>

lemma uniqueLoop_fresh: "uniqueLoop taken name i a |\<notin>| taken"
  by (induction taken name i a rule: uniqueLoop.induct) (simp add: uniqueLoop.simps)

lemma uniqueLoop_free: "a |\<notin>| taken \<Longrightarrow> uniqueLoop taken name i a = a"
  by (simp add: uniqueLoop.simps)

lemma uniqueLoop_next:
  "a |\<in>| taken \<Longrightarrow> uniqueLoop taken name i a = uniqueLoop taken name (Suc i) (candidate name i)"
  by (simp add: uniqueLoop.simps)

lemma uniqueLoop_form:
  "uniqueLoop taken name i a = a \<or> (\<exists>k\<ge>i. uniqueLoop taken name i a = candidate name k)"
proof (induction taken name i a rule: uniqueLoop.induct)
  case (1 taken name i a)
  show ?case
  proof (cases "a |\<in>| taken")
    case True
    from "1.IH" [OF True] show ?thesis
      unfolding uniqueLoop_next [OF True] by (metis Suc_leD order_refl)
  next
    case False
    then show ?thesis by (simp add: uniqueLoop_free)
  qed
qed

lemma uniqueLoop_taken_form:
  "a |\<in>| taken \<Longrightarrow> \<exists>k\<ge>i. uniqueLoop taken name i a = candidate name k"
  using uniqueLoop_form [of taken name i a] uniqueLoop_fresh [of taken name i a] by metis

lemma candidate_2: "candidate name 2 = name @ ''_2''"
  by (simp add: candidate_def decimal.simps digit_def)

lemma getUniqueName_fst:
  "fst (getUniqueName reservedNames test c name) =
     uniqueLoop (reservedNames |\<union>| userVars c |\<union>| usedNames c)
       (if test then name @ ''$'' else name) 1 (if test then name @ ''$'' else name)"
  by (simp add: getUniqueName_def Let_def)

lemma getUniqueName_snd:
  "snd (getUniqueName reservedNames test c name) =
     c\<lparr>usedNames := finsert (fst (getUniqueName reservedNames test c name)) (usedNames c)\<rparr>"
  by (simp add: getUniqueName_def Let_def)

lemma getUniqueName_fresh:
  "fst (getUniqueName reservedNames test c name) |\<notin>| reservedNames |\<union>| userVars c |\<union>| usedNames c"
  unfolding getUniqueName_fst by (rule uniqueLoop_fresh)

lemma alias'_cached: "aliases c name = Some a \<Longrightarrow> alias' reservedNames test c name = (a, c)"
  by (simp add: alias'_def)

lemma alias'_new:
  "aliases c name = None \<Longrightarrow>
   alias' reservedNames test c name =
     (fst (getUniqueName reservedNames test c name),
      c\<lparr>usedNames := finsert (fst (getUniqueName reservedNames test c name)) (usedNames c),
        aliases := (aliases c)(name \<mapsto> fst (getUniqueName reservedNames test c name))\<rparr>)"
  by (simp add: alias'_def getUniqueName_def Let_def)

lemma alias'_records: "aliases (snd (alias' reservedNames test c name)) name = Some (fst (alias' reservedNames test c name))"
  by (cases "aliases c name") (simp_all add: alias'_cached alias'_new)

lemma aliases_perform:
  "aliases c x = Some a \<Longrightarrow> aliases (perform reservedNames test c op) x = Some a"
proof (cases op)
  case (DoAlias name)
  assume "aliases c x = Some a"
  then show ?thesis
    unfolding DoAlias by (cases "aliases c name") (auto simp: alias'_cached alias'_new)
next
  case (DoGetUniqueName name)
  assume "aliases c x = Some a"
  then show ?thesis
    unfolding DoGetUniqueName by (simp add: getUniqueName_snd)
next
  case DoGetUniqueNameMaker
  assume "aliases c x = Some a"
  then show ?thesis
    unfolding DoGetUniqueNameMaker by (simp add: getUniqueNameMaker_def)
next
  case (DoCallMaker k name)
  assume "aliases c x = Some a"
  then show ?thesis
    unfolding DoCallMaker by (auto simp: callMaker_def Let_def)
qed

lemma aliases_performAll:
  "aliases c x = Some a \<Longrightarrow> aliases (performAll reservedNames test c ops) x = Some a"
  unfolding performAll_def
  by (induction ops arbitrary: c) (simp_all add: aliases_perform)

lemma candidate_Suc0: "candidate name (Suc 0) = name @ ''_1''"
  by (simp add: candidate_def decimal.simps digit_def)

lemma uniqueLoop_first:
  assumes "name |\<in>| taken" and "name @ ''_1'' |\<notin>| taken"
  shows "uniqueLoop taken name (Suc 0) name = name @ ''_1''"
proof -
  have "uniqueLoop taken name (Suc 0) name = uniqueLoop taken name (Suc (Suc 0)) (name @ ''_1'')"
    using assms(1) by (simp add: uniqueLoop_next candidate_Suc0)
  also have "\<dots> = name @ ''_1''"
    using assms(2) by (rule uniqueLoop_free)
  finally show ?thesis .
qed

lemma uniqueLoop_second:
  assumes "name |\<in>| taken" and "name @ ''_1'' |\<in>| taken" and "name @ ''_2'' |\<notin>| taken"
  shows "uniqueLoop taken name (Suc 0) name = name @ ''_2''"
proof -
  have c2: "candidate name (Suc (Suc 0)) = name @ ''_2''"
    using candidate_2 [of name] by (simp add: numeral_2_eq_2)
  have "uniqueLoop taken name (Suc 0) name = uniqueLoop taken name (Suc (Suc 0)) (name @ ''_1'')"
    using assms(1) by (simp add: uniqueLoop_next candidate_Suc0)
  also have "\<dots> = uniqueLoop taken name (Suc (Suc (Suc 0))) (name @ ''_2'')"
    using assms(2) by (simp add: uniqueLoop_next c2)
  also have "\<dots> = name @ ''_2''"
    using assms(3) by (rule uniqueLoop_free)
  finally show ?thesis .
qed

lemma allocate_step:
  assumes ok: "registry_ok R c" and al: "allocate R test c r = (a, c')"
  shows "registry_ok R c'"
    and "userVars c' = userVars c"
    and "usedNames c |\<subseteq>| usedNames c'"
    and "a |\<in>| usedNames c'"
    and "a |\<notin>| R" and "a |\<notin>| userVars c"
    and "a |\<in>| usedNames c \<Longrightarrow> \<exists>x. r = Alias x \<and> aliases c x = Some a"
    and "\<And>x. r = Alias x \<Longrightarrow> aliases c' x = Some a"
    and "\<And>y b. aliases c' y = Some b \<Longrightarrow> b |\<in>| usedNames c \<Longrightarrow> aliases c y = Some b"
    and "\<And>n. r = GetUniqueName n \<Longrightarrow> aliases c' = aliases c \<and> a |\<notin>| usedNames c"
proof -
  have all: "registry_ok R c' \<and> userVars c' = userVars c \<and> usedNames c |\<subseteq>| usedNames c'
     \<and> a |\<in>| usedNames c' \<and> a |\<notin>| R \<and> a |\<notin>| userVars c
     \<and> (a |\<in>| usedNames c \<longrightarrow> (\<exists>x. r = Alias x \<and> aliases c x = Some a))
     \<and> (\<forall>x. r = Alias x \<longrightarrow> aliases c' x = Some a)
     \<and> (\<forall>y b. aliases c' y = Some b \<longrightarrow> b |\<in>| usedNames c \<longrightarrow> aliases c y = Some b)
     \<and> (\<forall>n. r = GetUniqueName n \<longrightarrow> aliases c' = aliases c \<and> a |\<notin>| usedNames c)"
  proof (cases r)
    case (GetUniqueName n)
    from al have a: "a = fst (getUniqueName R test c n)" and c': "c' = snd (getUniqueName R test c n)"
      unfolding GetUniqueName by simp_all
    from getUniqueName_fresh [of R test c n] have fresh: "a |\<notin>| R" "a |\<notin>| userVars c" "a |\<notin>| usedNames c"
      unfolding a by simp_all
    have c'': "c' = c\<lparr>usedNames := finsert a (usedNames c)\<rparr>"
      unfolding c' a by (rule getUniqueName_snd)
    from ok fresh show ?thesis
      unfolding c'' GetUniqueName registry_ok_def by auto
  next
    case (Alias x)
    show ?thesis
    proof (cases "aliases c x")
      case (Some b)
      with al have "a = b" "c' = c"
        unfolding Alias by (simp_all add: alias'_cached)
      with ok Some show ?thesis
        unfolding Alias registry_ok_def by auto
    next
      case None
      from al have a: "a = fst (getUniqueName R test c x)"
        unfolding Alias by (simp add: alias'_new [OF None])
      from getUniqueName_fresh [of R test c x] have fresh: "a |\<notin>| R" "a |\<notin>| userVars c" "a |\<notin>| usedNames c"
        unfolding a by simp_all
      from al have c'': "c' = c\<lparr>usedNames := finsert a (usedNames c), aliases := (aliases c)(x \<mapsto> a)\<rparr>"
        unfolding Alias a by (simp add: alias'_new [OF None])
      have nothing: "\<And>y. aliases c y \<noteq> Some a"
        using ok fresh(3) unfolding registry_ok_def by blast
      from ok fresh nothing None show ?thesis
        unfolding c'' Alias registry_ok_def by (auto split: if_splits)
    qed
  qed
  from all show "registry_ok R c'" by blast
  from all show "userVars c' = userVars c" by blast
  from all show "usedNames c |\<subseteq>| usedNames c'" by blast
  from all show "a |\<in>| usedNames c'" by blast
  from all show "a |\<notin>| R" by blast
  from all show "a |\<notin>| userVars c" by blast
  from all show "a |\<in>| usedNames c \<Longrightarrow> \<exists>x. r = Alias x \<and> aliases c x = Some a" by blast
  from all show "\<And>x. r = Alias x \<Longrightarrow> aliases c' x = Some a" by blast
  from all show "\<And>y b. aliases c' y = Some b \<Longrightarrow> b |\<in>| usedNames c \<Longrightarrow> aliases c y = Some b" by blast
  from all show "\<And>n. r = GetUniqueName n \<Longrightarrow> aliases c' = aliases c \<and> a |\<notin>| usedNames c" by blast
qed

lemma registry_ok_empty: "aliases c = Map.empty \<Longrightarrow> registry_ok R c"
  by (simp add: registry_ok_def)

lemma allocateAll_Cons:
  "allocateAll R test c (r # rs) =
     (fst (allocate R test c r) # fst (allocateAll R test (snd (allocate R test c r)) rs),
      snd (allocateAll R test (snd (allocate R test c r)) rs))"
  by (simp add: split_beta Let_def)

lemma allocateAll_length: "length (fst (allocateAll R test c rs)) = length rs"
  by (induction rs arbitrary: c) (simp_all add: split_beta Let_def)

lemma allocateAll_props:
  assumes "registry_ok R c" and "allocateAll R test c rs = (names, c')"
  shows "registry_ok R c' \<and> userVars c' = userVars c \<and> usedNames c |\<subseteq>| usedNames c'
    \<and> (\<forall>j<length rs. names ! j |\<notin>| R \<and> names ! j |\<notin>| userVars c)
    \<and> (\<forall>j<length rs. names ! j |\<in>| usedNames c \<longrightarrow>
          (\<exists>y. rs ! j = Alias y \<and> aliases c y = Some (names ! j)))
    \<and> (\<forall>i j. i < j \<longrightarrow> j < length rs \<longrightarrow> names ! i = names ! j \<longrightarrow>
          (\<exists>x. rs ! i = Alias x \<and> rs ! j = Alias x))"
  using assms
proof (induction rs arbitrary: c names c')
  case Nil
  then show ?case by simp
next
  case (Cons r rs)
  obtain a c1 where step: "allocate R test c r = (a, c1)"
    by (cases "allocate R test c r")
  obtain as c2 where rest: "allocateAll R test c1 rs = (as, c2)"
    by (cases "allocateAll R test c1 rs")
  from Cons.prems(2) step rest have names: "names = a # as" and c': "c' = c2"
    by simp_all
  note s = allocate_step [OF Cons.prems(1) step]
  from Cons.IH [OF s(1) rest]
  have ih_ok: "registry_ok R c2" and ih_vars: "userVars c2 = userVars c1"
    and ih_used: "usedNames c1 |\<subseteq>| usedNames c2"
    and ih_out: "\<And>j. j < length rs \<Longrightarrow> as ! j |\<notin>| R \<and> as ! j |\<notin>| userVars c1"
    and ih_old: "\<And>j. j < length rs \<Longrightarrow> as ! j |\<in>| usedNames c1 \<Longrightarrow>
          \<exists>y. rs ! j = Alias y \<and> aliases c1 y = Some (as ! j)"
    and ih_pair: "\<And>i j. i < j \<Longrightarrow> j < length rs \<Longrightarrow> as ! i = as ! j \<Longrightarrow>
          \<exists>x. rs ! i = Alias x \<and> rs ! j = Alias x"
    by blast+
  have out: "\<forall>j<length (r # rs). names ! j |\<notin>| R \<and> names ! j |\<notin>| userVars c"
  proof (intro allI impI)
    fix j assume "j < length (r # rs)"
    then show "names ! j |\<notin>| R \<and> names ! j |\<notin>| userVars c"
      using s(5,6) ih_out [of "j - 1"] s(2) unfolding names by (cases j) simp_all
  qed
  have old: "\<forall>j<length (r # rs). names ! j |\<in>| usedNames c \<longrightarrow>
          (\<exists>y. (r # rs) ! j = Alias y \<and> aliases c y = Some (names ! j))"
  proof (intro allI impI)
    fix j assume j: "j < length (r # rs)" and u: "names ! j |\<in>| usedNames c"
    show "\<exists>y. (r # rs) ! j = Alias y \<and> aliases c y = Some (names ! j)"
    proof (cases j)
      case 0
      with u s(7) show ?thesis unfolding names by simp
    next
      case (Suc k)
      with j u have k: "k < length rs" and uk: "as ! k |\<in>| usedNames c"
        unfolding names by simp_all
      from uk s(3) have "as ! k |\<in>| usedNames c1" by blast
      from ih_old [OF k this] obtain y where y: "rs ! k = Alias y" "aliases c1 y = Some (as ! k)"
        by blast
      from s(9) [OF y(2) uk] y(1) show ?thesis
        unfolding names Suc by simp
    qed
  qed
  have pair: "\<forall>i j. i < j \<longrightarrow> j < length (r # rs) \<longrightarrow> names ! i = names ! j \<longrightarrow>
          (\<exists>x. (r # rs) ! i = Alias x \<and> (r # rs) ! j = Alias x)"
  proof (intro allI impI)
    fix i j assume ij: "i < j" and j: "j < length (r # rs)" and eq: "names ! i = names ! j"
    from ij obtain k where jk: "j = Suc k" by (cases j) simp_all
    with j have k: "k < length rs" by simp
    show "\<exists>x. (r # rs) ! i = Alias x \<and> (r # rs) ! j = Alias x"
    proof (cases i)
      case 0
      with eq jk have ak: "as ! k = a" unfolding names by simp
      with s(4) have "as ! k |\<in>| usedNames c1" by simp
      from ih_old [OF k this] obtain y where y: "rs ! k = Alias y" "aliases c1 y = Some a"
        unfolding ak by blast
      show ?thesis
      proof (cases r)
        case (Alias x)
        from s(8) [OF Alias] have "aliases c1 x = Some a" .
        with y(2) s(1) have "x = y"
          unfolding registry_ok_def by blast
        with y(1) Alias show ?thesis
          unfolding 0 jk by simp
      next
        case (GetUniqueName n)
        from s(10) [OF GetUniqueName] have same: "aliases c1 = aliases c" and new: "a |\<notin>| usedNames c"
          by simp_all
        from y(2) same have "aliases c y = Some a" by simp
        with Cons.prems(1) have "a |\<in>| usedNames c"
          unfolding registry_ok_def by blast
        with new show ?thesis by simp
      qed
    next
      case (Suc i')
      with ij jk eq have "i' < k" "as ! i' = as ! k"
        unfolding names by simp_all
      from ih_pair [OF this(1) k this(2)] show ?thesis
        unfolding Suc jk by simp
    qed
  qed
  from ih_ok ih_vars s(2) s(3) ih_used out old pair show ?case
    unfolding c' by auto
qed

lemma maker_ok_new:
  "maker_ok R (snd (getUniqueNameMaker R c)) (fst (getUniqueNameMaker R c))"
  by (simp add: maker_ok_def getUniqueNameMaker_def)

lemma maker_ok_perform: "maker_ok R c k \<Longrightarrow> maker_ok R (perform R test c op) k"
proof (cases op)
  case (DoAlias name)
  assume "maker_ok R c k"
  then show ?thesis
    unfolding DoAlias maker_ok_def
    by (cases "aliases c name") (simp_all add: alias'_cached alias'_new)
next
  case (DoGetUniqueName name)
  assume "maker_ok R c k"
  then show ?thesis
    unfolding DoGetUniqueName maker_ok_def by (simp add: getUniqueName_snd)
next
  case DoGetUniqueNameMaker
  assume "maker_ok R c k"
  then show ?thesis
    unfolding DoGetUniqueNameMaker maker_ok_def
    by (simp add: getUniqueNameMaker_def nth_append)
next
  case (DoCallMaker j name)
  assume "maker_ok R c k"
  then show ?thesis
    unfolding DoCallMaker maker_ok_def
    by (auto simp: callMaker_def Let_def nth_list_update)
qed

lemma maker_ok_performAll: "maker_ok R c k \<Longrightarrow> maker_ok R (performAll R test c ops) k"
  unfolding performAll_def
  by (induction ops arbitrary: c) (simp_all add: maker_ok_perform)

lemma callMaker_ok:
  assumes "maker_ok R c k"
  shows "\<exists>a c'. callMaker test c k name = Some (a, c')
      \<and> a |\<notin>| R \<and> a |\<notin>| userVars c \<and> a |\<notin>| usedNames c
      \<and> usedNames c' = usedNames c \<and> aliases c' = aliases c \<and> userVars c' = userVars c"
proof -
  let ?n = "if test then name @ ''$'' else name"
  let ?a = "uniqueLoop (usedNames c |\<union>| makers c ! k) ?n 1 ?n"
  from assms have k: "k < length (makers c)" and sub: "R |\<union>| userVars c |\<subseteq>| makers c ! k"
    unfolding maker_ok_def by simp_all
  have "?a |\<notin>| usedNames c |\<union>| makers c ! k"
    by (rule uniqueLoop_fresh)
  with sub have "?a |\<notin>| R \<and> ?a |\<notin>| userVars c \<and> ?a |\<notin>| usedNames c"
    by blast
  with k show ?thesis
    by (simp add: callMaker_def Let_def)
qed

section \<open>Properties of \<open>generate\<close>\<close>

text \<open>
  The substitution and the aliasing of the imported helpers leave the source text, the
  file name and the text buffer of the component as they are.
\<close>

lemma alias'_source:
  "source (snd (alias' R test c name)) = source c
   \<and> filename (snd (alias' R test c name)) = filename c
   \<and> code_buffer (snd (alias' R test c name)) = code_buffer c"
  by (cases "aliases c name") (simp_all add: alias'_cached alias'_new)

lemma replacer_source:
  "source (fst (snd (replacer shared dev R test (c, hs) sigil name))) = source c
   \<and> filename (fst (snd (replacer shared dev R test (c, hs) sigil name))) = filename c
   \<and> code_buffer (fst (snd (replacer shared dev R test (c, hs) sigil name))) = code_buffer c"
  using alias'_source [of R test c]
  by (simp add: replacer_def Let_def split_beta)

lemma replaceAll_source:
  "source (fst (snd (replaceAll shared dev R test (c, hs) ps))) = source c
   \<and> filename (fst (snd (replaceAll shared dev R test (c, hs) ps))) = filename c
   \<and> code_buffer (fst (snd (replaceAll shared dev R test (c, hs) ps))) = code_buffer c"
proof (induction ps arbitrary: c hs)
  case Nil
  show ?case by simp
next
  case (Cons p ps)
  show ?case
  proof (cases p)
    case (Copied ch)
    from Cons.IH [of c hs] show ?thesis
      unfolding Copied by (simp add: split_beta)
  next
    case (Matched sigil name)
    obtain out c1 hs1 where r: "replacer shared dev R test (c, hs) sigil name = (out, c1, hs1)"
      by (cases "replacer shared dev R test (c, hs) sigil name") auto
    from replacer_source [of shared dev R test c hs sigil name] r
    have "source c1 = source c \<and> filename c1 = filename c \<and> code_buffer c1 = code_buffer c"
      by simp
    with Cons.IH [of c1 hs1] show ?thesis
      unfolding Matched by (simp add: r split_beta)
  qed
qed

lemma aliasEach_source:
  "source (snd (aliasEach R test c names)) = source c
   \<and> filename (snd (aliasEach R test c names)) = filename c
   \<and> code_buffer (snd (aliasEach R test c names)) = code_buffer c"
proof (induction names arbitrary: c)
  case Nil
  show ?case by simp
next
  case (Cons n names)
  from Cons.IH [of "snd (alias' R test c n)"] alias'_source [of R test c n]
  show ?case by (simp add: split_beta)
qed

lemma moduleText_source:
  "source (snd (moduleText ssr shared dev R test wrapModule c template)) = source c
   \<and> filename (snd (moduleText ssr shared dev R test wrapModule c template)) = filename c
   \<and> code_buffer (snd (moduleText ssr shared dev R test wrapModule c template)) = code_buffer c"
proof -
  let ?s = "substitute ssr shared dev R test c template"
  have 1: "source (fst (snd ?s)) = source c \<and> filename (fst (snd ?s)) = filename c
      \<and> code_buffer (fst (snd ?s)) = code_buffer c"
    unfolding substitute_def by (rule replaceAll_source)
  have 2: "source (snd (importedHelpers R test (fst (snd ?s)) (snd (snd ?s)))) = source (fst (snd ?s))
      \<and> filename (snd (importedHelpers R test (fst (snd ?s)) (snd (snd ?s)))) = filename (fst (snd ?s))
      \<and> code_buffer (snd (importedHelpers R test (fst (snd ?s)) (snd (snd ?s))))
          = code_buffer (fst (snd ?s))"
    unfolding importedHelpers_def by (rule aliasEach_source)
  from 1 2 show ?thesis
    by (simp add: moduleText_def split_beta)
qed

text \<open>What \<open>generate\<close> can throw: a \<open>TypeError\<close>, or an error of the text buffer.\<close>

lemma remove_errors: "remove a b m = Inl e \<Longrightarrow> e = OutOfBounds \<or> e = EndBeforeStart"
  by (simp add: remove_def split: if_splits)

lemma snip_errors: "snip a b m = Inl e \<Longrightarrow> e = OutOfBounds \<or> e = EndBeforeStart"
  by (auto simp: snip_def dest: remove_errors split: sum.splits)

lemma addParts_errors:
  "addParts file buffer strs = Inl e \<Longrightarrow> e = TypeError \<or> e = OutOfBounds \<or> e = EndBeforeStart"
proof (induction strs)
  case Nil
  then show ?case by simp
next
  case (Cons str strs)
  show ?case
  proof (cases "execPattern str")
    case None
    with Cons.prems show ?thesis by simp
  next
    case (Some m)
    obtain chunk d1 d2 where m: "m = (chunk, d1, d2)" by (cases m)
    show ?thesis
    proof (cases "snip (toNumber d1) (toNumber d2) buffer")
      case (Inl e')
      with Cons.prems Some m have "e = e'" by simp
      with snip_errors [OF Inl] show ?thesis by simp
    next
      case (Inr snippet)
      with Cons.prems Some m have "addParts file buffer strs = Inl e"
        by (simp split: sum.splits)
      from Cons.IH [OF this] show ?thesis .
    qed
  qed
qed

lemma assemble_errors:
  assumes "assemble c module = Inl e"
  shows "e = TypeError \<or> e = OutOfBounds \<or> e = EndBeforeStart"
proof -
  let ?ps = "splitOn closer module"
  let ?first = "if butlast ?ps = []
               then (case remove 0 (length (source c)) (MagicString (source c)) of
                       Inl e \<Rightarrow> Inl e
                     | Inr emptied \<Rightarrow> Inr [\<lparr>entry_filename = filename c, content = emptied\<rparr>])
               else Inr []"
  show ?thesis
  proof (cases ?first)
    case (Inl e')
    with assms have "e = e'"
      by (simp add: assemble_def Let_def)
    moreover from Inl have "remove 0 (length (source c)) (MagicString (source c)) = Inl e'"
      by (simp split: if_splits sum.splits)
    ultimately show ?thesis
      using remove_errors by blast
  next
    case (Inr first)
    with assms have "addParts (filename c) (code_buffer c) (butlast ?ps) = Inl e"
      by (simp add: assemble_def Let_def split: sum.splits)
    then show ?thesis
      by (rule addParts_errors)
  qed
qed

lemma generate_errors:
  assumes "generate ssr shared dev R test wrapModule c template = Inl e"
  shows "e = TypeError \<or> e = OutOfBounds \<or> e = EndBeforeStart"
proof -
  obtain module c' where m: "moduleText ssr shared dev R test wrapModule c template = (module, c')"
    by (cases "moduleText ssr shared dev R test wrapModule c template")
  with assms have "assemble c' module = Inl e"
    by (simp add: generate_def split: sum.splits)
  then show ?thesis
    by (rule assemble_errors)
qed

text \<open>Splitting a text in which the separator does not occur.\<close>

lemma splitOn_none: "\<not> sublist sep s \<Longrightarrow> splitOn sep s = [s]"
proof (induction s)
  case Nil
  show ?case by simp
next
  case (Cons ch s)
  from Cons.prems have np: "\<not> prefix sep (ch # s)"
    using prefix_imp_sublist by blast
  from Cons.prems have "\<not> sublist sep s"
    by (meson sublist_Cons_right)
  from Cons.IH [OF this] have ih: "splitOn sep s = [s]" .
  show ?case
    by (subst splitOn.simps(2)) (simp only: np ih simp_thms if_False list.case)
qed

text \<open>Reading a buffer.\<close>

lemma filter_all_kept: "map fst (filter snd (zip xs (replicate (length xs) True))) = xs"
  by (induction xs) simp_all

lemma filter_none_kept: "filter snd (zip xs (replicate n False)) = []"
proof (induction xs arbitrary: n)
  case Nil
  show ?case by simp
next
  case (Cons x xs)
  show ?case
    by (cases n) (simp_all add: Cons.IH)
qed

lemma toString_MagicString: "toString (MagicString str) = str"
  by (simp add: toString_def MagicString_def filter_all_kept)

lemma emptied:
  "\<exists>m. remove 0 (length src) (MagicString src) = Inr m \<and> original m = src \<and> toString m = []"
proof (cases "src = []")
  case True
  then show ?thesis
    by (simp add: remove_def MagicString_def toString_def)
next
  case False
  then show ?thesis
    by (simp add: remove_def MagicString_def toString_def filter_none_kept)
qed

text \<open>Decimal digits, and the pattern of a span marker.\<close>

lemma digit_props_upto:
  "\<forall>d\<in>set [0..<10]. digitValue (digit d) = d \<and> is_digit (digit d)"
  by code_simp


lemma is_digit_digit: "d < 10 \<Longrightarrow> is_digit (digit d)"
  using digit_props_upto by simp

lemma decimal_digits: "ch \<in> set (decimal n) \<Longrightarrow> is_digit ch"
proof (induction n rule: decimal.induct)
  case (1 n)
  show ?case
  proof (cases "n < 10")
    case True
    with "1.prems" show ?thesis
      by (simp add: decimal.simps [of n] is_digit_digit)
  next
    case False
    with "1.prems" "1.IH" show ?thesis
      by (auto simp: decimal.simps [of n] is_digit_digit)
  qed
qed







lemma dropWhile_all_digits: "dropWhile is_digit (decimal n) = []"
  using decimal_digits by (auto simp: dropWhile_eq_Nil_conv)













text \<open>Snippets of the buffer.\<close>

lemma filter_kept_same: "length xs = n \<Longrightarrow> map fst (filter snd (zip xs (replicate n True))) = xs"
  using filter_all_kept [of xs] by simp




lemma keptRange_unedited:
  "b \<le> length src \<Longrightarrow> keptRange (MagicString src) a b = take (b - a) (drop a src)"
  by (simp add: keptRange_def MagicString_def take_zip drop_zip filter_kept_same min_def)





section \<open>Properties of the constructor\<close>

lemma walkBody_fields:
  "walkBody removeNode c nodes = Inr c' \<Longrightarrow>
   userVars c' = userVars c |\<union>| fset_of_list (importNames nodes)
   \<and> aliases c' = aliases c \<and> usedNames c' = usedNames c
   \<and> defaultExport c' = defaultExport c \<and> warnings c' = warnings c"
proof (induction removeNode c nodes rule: walkBody.induct)
  case (1 removeNode c)
  then show ?case by simp
next
  case (2 removeNode c s e properties rest)
  then show ?case by simp
next
  case (3 removeNode c s e specifiers rest)
  from "3.prems" "3.IH" show ?case
    by (simp add: funion_assoc)
next
  case (4 removeNode c s e rest)
  then show ?case by simp
qed

lemma walkJs_fields:
  assumes "walkJs removeNode c js = Inr c'"
  shows "aliases c' = aliases c \<and> usedNames c' = usedNames c
     \<and> defaultExport c' = defaultExport c \<and> warnings c' = warnings c
     \<and> userVars c' = userVars c |\<union>|
          (case js of None \<Rightarrow> {||}
           | Some j \<Rightarrow> fset_of_list (scope_declarations j) |\<union>| fset_of_list (globals j)
                        |\<union>| fset_of_list (importNames (body j)))"
proof (cases js)
  case None
  with assms show ?thesis by (simp add: walkJs_def)
next
  case (Some j)
  with assms walkBody_fields [of removeNode _ "body j" c'] show ?thesis
    by (simp add: walkJs_def funion_assoc split: if_splits)
qed

lemma walkJs_empty_body: "body j = [] \<Longrightarrow> walkJs removeNode c (Some j) = Inl TypeError"
  by (simp add: walkJs_def)

text \<open>
  The constructor returns a component exactly when the script, if there is one, has a
  statement and no default export.
\<close>

lemma walkBody_returns:
  "(\<exists>c'. walkBody removeNode c nodes = Inr c') \<longleftrightarrow> (\<forall>n\<in>set nodes. \<not> isDefaultExport n)"
  by (induction removeNode c nodes rule: walkBody.induct) simp_all

lemma construct_returns:
  "(\<exists>c. construct reservedNames test removeNode src file js name = Inr c) \<longleftrightarrow>
   (case js of None \<Rightarrow> True
    | Some j \<Rightarrow> body j \<noteq> [] \<and> (\<forall>n\<in>set (body j). \<not> isDefaultExport n))"
proof (cases js)
  case None
  then show ?thesis by (simp add: construct_def walkJs_def split_beta)
next
  case (Some j)
  let ?c = "(newComponent src file)\<lparr>userVars := userVars (newComponent src file)
                |\<union>| fset_of_list (scope_declarations j) |\<union>| fset_of_list (globals j),
              declarations := declarations (newComponent src file) @ scope_declarations j\<rparr>"
  have "(\<exists>c. construct reservedNames test removeNode src file js name = Inr c) \<longleftrightarrow>
      body j \<noteq> [] \<and> (\<exists>c'. walkBody removeNode ?c (body j) = Inr c')"
    by (auto simp: Some construct_def walkJs_def split_beta split: sum.splits)
  with walkBody_returns [of removeNode ?c "body j"] Some show ?thesis by simp
qed

lemma construct_fields:
  assumes "construct reservedNames test removeNode src file js name = Inr c"
  shows "defaultExport c = None \<and> warnings c = []"
proof -
  from assms obtain c1 where w: "walkJs removeNode (newComponent src file) js = Inr c1"
    and c: "c = (snd (alias' reservedNames test c1 name))
                  \<lparr>component_name := fst (alias' reservedNames test c1 name)\<rparr>"
    by (auto simp: construct_def split_beta split: sum.splits)
  from walkJs_fields [OF w] have "defaultExport c1 = None" "warnings c1 = []"
    by (simp_all add: newComponent_def)
  then show ?thesis
    unfolding c by (cases "aliases c1 name") (simp_all add: alias'_cached alias'_new)
qed

lemma getUniqueName_shape:
  "fst (getUniqueName R test c name) =
     (if (if test then name @ ''$'' else name) |\<in>| R |\<union>| userVars c |\<union>| usedNames c
      then fst (getUniqueName R test c name) else (if test then name @ ''$'' else name))
   \<and> ((if test then name @ ''$'' else name) |\<in>| R |\<union>| userVars c |\<union>| usedNames c \<longrightarrow>
        (\<exists>k\<ge>1. fst (getUniqueName R test c name) =
            (if test then name @ ''$'' else name) @ ''_'' @ decimal k))"
  using uniqueLoop_taken_form [of "if test then name @ ''$'' else name"
      "R |\<union>| userVars c |\<union>| usedNames c" 1]
  by (auto simp: getUniqueName_fst uniqueLoop_free candidate_def simp del: One_nat_def)



lemma checkRefs_pass:
  "checkRefs fuzzymatch rs cls = Inr u \<Longrightarrow> cl \<in> set cls \<Longrightarrow>
   \<exists>r. refName cl = Some r \<and> r \<in> set rs"
  by (induction cls) (auto split: if_splits option.splits)



text \<open>The accumulator of warnings is not read by \<open>generate\<close>.\<close>

lemma getUniqueName_warnings:
  "getUniqueName R test (c\<lparr>warnings := ws\<rparr>) name =
     (fst (getUniqueName R test c name), (snd (getUniqueName R test c name))\<lparr>warnings := ws\<rparr>)"
  by (simp add: getUniqueName_def Let_def)

lemma alias'_warnings:
  "alias' R test (c\<lparr>warnings := ws\<rparr>) name =
     (fst (alias' R test c name), (snd (alias' R test c name))\<lparr>warnings := ws\<rparr>)"
  by (cases "aliases c name") (simp_all add: alias'_def getUniqueName_warnings split_beta)

lemma replacer_warnings:
  "replacer shared dev R test (c\<lparr>warnings := ws\<rparr>, hs) sigil name =
     (case replacer shared dev R test (c, hs) sigil name of
        (text, c', hs') \<Rightarrow> (text, c'\<lparr>warnings := ws\<rparr>, hs'))"
  by (simp add: replacer_def alias'_warnings split_beta Let_def)

lemma replaceAll_warnings:
  "replaceAll shared dev R test (c\<lparr>warnings := ws\<rparr>, hs) ps =
     (case replaceAll shared dev R test (c, hs) ps of
        (text, c', hs') \<Rightarrow> (text, c'\<lparr>warnings := ws\<rparr>, hs'))"
proof (induction ps arbitrary: c hs)
  case Nil
  show ?case by simp
next
  case (Cons p ps)
  show ?case
  proof (cases p)
    case (Copied ch)
    show ?thesis
      unfolding Copied by (simp add: Cons.IH split_beta)
  next
    case (Matched sigil name)
    obtain out c1 hs1 where r: "replacer shared dev R test (c, hs) sigil name = (out, c1, hs1)"
      by (cases "replacer shared dev R test (c, hs) sigil name") auto
    have r': "replacer shared dev R test (c\<lparr>warnings := ws\<rparr>, hs) sigil name
        = (out, c1\<lparr>warnings := ws\<rparr>, hs1)"
      by (simp add: replacer_warnings r)
    show ?thesis
      unfolding Matched by (simp add: r r' Cons.IH split_beta)
  qed
qed

lemma aliasEach_warnings:
  "aliasEach R test (c\<lparr>warnings := ws\<rparr>) names =
     (fst (aliasEach R test c names), (snd (aliasEach R test c names))\<lparr>warnings := ws\<rparr>)"
  by (induction names arbitrary: c) (simp_all add: alias'_warnings split_beta)

lemma moduleText_warnings:
  "moduleText ssr shared dev R test wrapModule (c\<lparr>warnings := ws\<rparr>) template =
     (fst (moduleText ssr shared dev R test wrapModule c template),
      (snd (moduleText ssr shared dev R test wrapModule c template))\<lparr>warnings := ws\<rparr>)"
  by (simp add: moduleText_def substitute_def importedHelpers_def replaceAll_warnings
      aliasEach_warnings split_beta)

lemma assemble_warnings: "assemble (c\<lparr>warnings := ws\<rparr>) module = assemble c module"
  by (simp add: assemble_def Let_def cong: sum.case_cong if_cong)

lemma generate_warnings:
  "map_sum id fst (generate ssr shared dev R test wrapModule (c\<lparr>warnings := ws\<rparr>) template)
   = map_sum id fst (generate ssr shared dev R test wrapModule c template)"
  by (simp add: generate_def moduleText_warnings assemble_warnings split_beta split: sum.splits)

section \<open>The claims\<close>

subsection \<open>Uniqueness of allocated names\<close>

text \<open>
  Claim C1, as stated, asks that the names returned by any sequence of \<open>alias\<close> and
  \<open>getUniqueName\<close> requests be pairwise distinct. Two \<open>alias\<close> requests for the same
  logical name return the same emitted name, so the names are not pairwise distinct.
\<close>

theorem alias_repeated_counterexample:
  "\<not> distinct (fst (allocateAll {||} False (newComponent [] None) [Alias ''x'', Alias ''x'']))"
  by (simp add: newComponent_def alias'_def getUniqueName_def uniqueLoop.simps Let_def)

text \<open>
  Claim C1, amended. In a registry that satisfies its invariant (a new component does),
  for every sequence of \<open>alias\<close> and \<open>getUniqueName\<close> requests, no returned name is
  reserved or a user name, and two requests return the same name only when both are
  \<open>alias\<close> requests for the same logical name. So the returned names are pairwise
  distinct whenever no logical name is passed to \<open>alias\<close> twice.
\<close>

theorem allocated_names:
  assumes "registry_ok reservedNames c" and "j < length rs"
  shows "fst (allocateAll reservedNames test c rs) ! j |\<notin>| reservedNames
       \<and> fst (allocateAll reservedNames test c rs) ! j |\<notin>| userVars c
       \<and> (\<forall>i<j. fst (allocateAll reservedNames test c rs) ! i
                  = fst (allocateAll reservedNames test c rs) ! j \<longrightarrow>
                (\<exists>x. rs ! i = Alias x \<and> rs ! j = Alias x))"
proof -
  have "allocateAll reservedNames test c rs =
      (fst (allocateAll reservedNames test c rs), snd (allocateAll reservedNames test c rs))"
    by simp
  from allocateAll_props [OF assms(1) this] assms(2) show ?thesis
    by blast
qed

theorem allocated_names_witness:
  "fst (allocateAll {|''get''|} False ((newComponent [] None)\<lparr>userVars := {|''a''|}\<rparr>)
          [Alias ''get'', GetUniqueName ''get'', Alias ''a'']) ! 2 |\<notin>| {|''get''|}
   \<and> fst (allocateAll {|''get''|} False ((newComponent [] None)\<lparr>userVars := {|''a''|}\<rparr>)
          [Alias ''get'', GetUniqueName ''get'', Alias ''a'']) ! 2 |\<notin>| {|''a''|}
   \<and> fst (allocateAll {|''get''|} False ((newComponent [] None)\<lparr>userVars := {|''a''|}\<rparr>)
          [Alias ''get'', GetUniqueName ''get'', Alias ''a'']) = [''get_1'', ''get_2'', ''a_1'']"
proof -
  let ?c = "(newComponent [] None)\<lparr>userVars := {|''a''|}\<rparr>"
  let ?rs = "[Alias ''get'', GetUniqueName ''get'', Alias ''a'']"
  have ok: "registry_ok {|''get''|} ?c"
    by (simp add: registry_ok_def newComponent_def)
  have len: "2 < length ?rs"
    by simp
  have names: "fst (allocateAll {|''get''|} False ?c ?rs) = [''get_1'', ''get_2'', ''a_1'']"
    by (simp add: newComponent_def alias'_def getUniqueName_def uniqueLoop.simps
        candidate_def decimal.simps digit_def Let_def)
  from allocated_names [OF ok len, of False] names show ?thesis
    by (simp add: newComponent_def)
qed

subsection \<open>Span markers\<close>




text \<open>
  Claim C3. Once \<open>alias (x)\<close> has been called, every later call of \<open>alias (x)\<close> in
  the same compilation returns the same string as the first call did, whatever calls of
  \<open>alias\<close>, \<open>getUniqueName\<close>, \<open>getUniqueNameMaker\<close> and of its closures were made in
  between.
\<close>

theorem alias_memoized:
  "fst (alias' reservedNames test
          (performAll reservedNames test (snd (alias' reservedNames test c x)) ops) x)
   = fst (alias' reservedNames test c x)"
  by (simp add: aliases_performAll alias'_records alias'_cached)

subsection \<open>Suffixes\<close>

text \<open>
  Claim C4, as stated, gives \<open>get_1\<close> to the first allocation for a reserved \<open>get\<close>
  whatever else is declared. When the user's script declares \<open>get_1\<close> itself, the loop
  steps over it and the first allocation returns \<open>get_2\<close>.
\<close>

theorem first_suffix_counterexample:
  "fst (getUniqueName {|''get''|} False ((newComponent [] None)\<lparr>userVars := {|''get_1''|}\<rparr>)
     ''get'') = ''get_2''"
  by (simp add: newComponent_def getUniqueName_def uniqueLoop.simps candidate_def
      decimal.simps digit_def Let_def)

text \<open>
  Claim C4, amended. With the test suffix off, when the base name is reserved and
  neither \<open>name_1\<close> nor \<open>name_2\<close> is reserved, a user name or already used, the first
  \<open>getUniqueName\<close> for the base name returns \<open>name_1\<close> and the second returns \<open>name_2\<close>
  (for \<open>get\<close>: \<open>get_1\<close>, then \<open>get_2\<close>).
\<close>

theorem getUniqueName_suffixes:
  assumes "name |\<in>| reservedNames"
    and "name @ ''_1'' |\<notin>| reservedNames |\<union>| userVars c |\<union>| usedNames c"
    and "name @ ''_2'' |\<notin>| reservedNames |\<union>| userVars c |\<union>| usedNames c"
  shows "fst (getUniqueName reservedNames False c name) = name @ ''_1''
       \<and> fst (getUniqueName reservedNames False
                 (snd (getUniqueName reservedNames False c name)) name) = name @ ''_2''"
proof -
  let ?taken = "reservedNames |\<union>| userVars c |\<union>| usedNames c"
  have first: "fst (getUniqueName reservedNames False c name) = name @ ''_1''"
    using assms(1,2) uniqueLoop_first [of name ?taken]
    by (simp add: getUniqueName_fst)
  let ?c = "snd (getUniqueName reservedNames False c name)"
  have c': "reservedNames |\<union>| userVars ?c |\<union>| usedNames ?c = finsert (name @ ''_1'') ?taken"
    by (simp add: getUniqueName_snd first)
  have "fst (getUniqueName reservedNames False ?c name) = name @ ''_2''"
    unfolding getUniqueName_fst c'
    using assms(1,3) uniqueLoop_second [of name "finsert (name @ ''_1'') ?taken"]
    by simp
  with first show ?thesis by simp
qed

theorem getUniqueName_suffixes_witness:
  "fst (getUniqueName {|''get''|} False (newComponent [] None) ''get'') = ''get_1''
   \<and> fst (getUniqueName {|''get''|} False
             (snd (getUniqueName {|''get''|} False (newComponent [] None) ''get'')) ''get'')
       = ''get_2''"
  using getUniqueName_suffixes [of "''get''" "{|''get''|}" "newComponent [] None"]
  by (simp add: newComponent_def)

subsection \<open>Sigils that do not resolve\<close>

text \<open>
  Claim C5, as stated, has the emitter raise a fatal diagnostic for a template variable
  that is not in the map. The callback returns what \<open>templateVars.get\<close> returns, so
  \<open>replace\<close> inserts the text \<open>undefined\<close>, and \<open>generate\<close> returns code.
\<close>

theorem missing_template_variable_counterexample:
  "map_sum id (js_code \<circ> fst)
     (generate False {||} False {||} False (\<lambda>result imported. result)
        (newComponent [] None) ''x = %slot;'')
   = Inr ''x = undefined;''"
  by code_simp

text \<open>
  Claim C5, amended. During the substitution nothing is raised. For a match with the
  sigil \<open>%\<close> the replacement is the entry of the template-variable map, and the text
  \<open>undefined\<close> when there is none; for a match with the sigil \<open>@\<close> it is the alias of
  the name (of the dev variant of a helper that has one, in dev mode), which always
  exists. If \<open>generate\<close> throws at all, it throws a \<open>TypeError\<close> or an error of the text
  buffer while it assembles the span markers, never a diagnostic.
\<close>

theorem sigil_replacement:
  "fst (replacer shared dev reservedNames test (c, hs) ''%'' name)
     = (case templateVars c name of None \<Rightarrow> ''undefined'' | Some v \<Rightarrow> v)
   \<and> fst (replacer shared dev reservedNames test (c, hs) ''@'' name)
     = fst (alias' reservedNames test c
             (if name |\<in>| shared \<and> dev \<and> name @ ''Dev'' |\<in>| shared
              then name @ ''Dev'' else name))
   \<and> (case generate ssr shared dev reservedNames test wrapModule c template of
        Inl e \<Rightarrow> e = TypeError \<or> e = OutOfBounds \<or> e = EndBeforeStart
      | Inr g \<Rightarrow> True)"
proof -
  have a: "fst (replacer shared dev reservedNames test (c, hs) ''%'' name)
     = (case templateVars c name of None \<Rightarrow> ''undefined'' | Some v \<Rightarrow> v)"
    by (simp add: replacer_def printed_def)
  have b: "fst (replacer shared dev reservedNames test (c, hs) ''@'' name)
     = fst (alias' reservedNames test c
             (if name |\<in>| shared \<and> dev \<and> name @ ''Dev'' |\<in>| shared
              then name @ ''Dev'' else name))"
    by (simp add: replacer_def Let_def split_beta)
  have d: "case generate ssr shared dev reservedNames test wrapModule c template of
        Inl e \<Rightarrow> e = TypeError \<or> e = OutOfBounds \<or> e = EndBeforeStart
      | Inr g \<Rightarrow> True"
    by (cases "generate ssr shared dev reservedNames test wrapModule c template")
      (simp_all add: generate_errors)
  from a b d show ?thesis by blast
qed

theorem sigil_replacement_witness:
  "fst (substitute False {|''noop''|} False {||} False
     ((newComponent [] None)\<lparr>templateVars := [''slot'' \<mapsto> ''slot_0'']\<rparr>)
     ''const @noop = 1; %slot %other'')
   = ''const noop = 1; slot_0 undefined''
   \<and> fst (replacer {|''noop''|} False {||} False (newComponent [] None, []) ''%'' ''other'')
   = ''undefined''"
proof -
  have s: "fst (substitute False {|''noop''|} False {||} False
     ((newComponent [] None)\<lparr>templateVars := [''slot'' \<mapsto> ''slot_0'']\<rparr>)
     ''const @noop = 1; %slot %other'')
   = ''const noop = 1; slot_0 undefined''"
    by code_simp
  from sigil_replacement [where shared = "{|''noop''|}" and dev = False
      and reservedNames = "{||}" and test = False and c = "newComponent [] None"
      and hs = "[]" and name = "''other''"]
  have "fst (replacer {|''noop''|} False {||} False (newComponent [] None, []) ''%'' ''other'')
   = ''undefined''"
    by (simp add: newComponent_def)
  with s show ?thesis by simp
qed

subsection \<open>Missing refs\<close>



subsection \<open>A module without span markers\<close>

text \<open>
  Claim C7, as stated, asks only that the module text has no span marker. Without a
  file name the placeholder is added untagged, and the map lists no source at all; and
  a module text with a closing token that belongs to no marker makes \<open>generate\<close> throw a
  \<open>TypeError\<close> (the pattern does not match, and the match is read unguarded).
\<close>

theorem no_filename_counterexample:
  "map_sum id (\<lambda>r. (map entry_filename (js_sources (fst r)), mapSources (js_sources (fst r))))
     (generate False {||} False {||} False (\<lambda>result imported. result)
        (newComponent ''<p>hi</p>'' None) ''var p;'')
   = Inr ([None, None], [])
   \<and> map_sum id fst
       (generate False {||} False {||} False (\<lambda>result imported. result)
          (newComponent ''<p>hi</p>'' (Some ''App.html'')) (''var p = 1;'' @ closer))
     = Inl TypeError"
  by code_simp

text \<open>
  Claim C7, amended. When the module text has no closing token of a span marker (so no
  span marker), and the compilation has a file name that is not empty, \<open>generate\<close>
  returns the module text as code, and the sources of the bundle are two: one tagged
  with the file name, over the original source and with empty content, and the module
  text itself, untagged. The file name, with the original source as its content, is then
  the one entry of the map's \<open>sources\<close> and \<open>sourcesContent\<close>.
\<close>

theorem no_markers_one_source:
  assumes "moduleText ssr shared dev reservedNames test wrapModule c template = (module, c')"
    and "\<not> sublist closer module"
    and "filename c = Some f" and "f \<noteq> []"
  shows "\<exists>g emptied. generate ssr shared dev reservedNames test wrapModule c template = Inr (g, c')
     \<and> js_code g = module
     \<and> js_sources g = [\<lparr>entry_filename = Some f, content = emptied\<rparr>, addString module]
     \<and> original emptied = source c \<and> toString emptied = []
     \<and> mapSources (js_sources g) = [(f, source c)]"
proof -
  from moduleText_source [of ssr shared dev reservedNames test wrapModule c template] assms(1,3)
  have src: "source c' = source c" and fl: "filename c' = Some f"
    by simp_all
  from emptied [of "source c"] obtain m where
    m: "remove 0 (length (source c)) (MagicString (source c)) = Inr m"
      "original m = source c" "toString m = []"
    by blast
  have sp: "splitOn closer module = [module]"
    using assms(2) by (rule splitOn_none)
  have asm: "assemble c' module = Inr [\<lparr>entry_filename = Some f, content = m\<rparr>, addString module]"
    by (simp add: assemble_def sp src fl m(1))
  have code: "bundleText [\<lparr>entry_filename = Some f, content = m\<rparr>, addString module] = module"
    by (simp add: bundleText_def m(3) addString_def toString_MagicString)
  have srcs: "mapSources [\<lparr>entry_filename = Some f, content = m\<rparr>, addString module]
      = [(f, source c)]"
    using assms(4) by (simp add: mapSources_def addString_def m(2))
  let ?g = "\<lparr>js_code = bundleText [\<lparr>entry_filename = Some f, content = m\<rparr>, addString module],
            js_sources = [\<lparr>entry_filename = Some f, content = m\<rparr>, addString module]\<rparr>"
  have "generate ssr shared dev reservedNames test wrapModule c template = Inr (?g, c')"
    by (simp add: generate_def assms(1) asm)
  with code srcs m(2,3) show ?thesis
    by (intro exI [of _ ?g] exI [of _ m]) simp
qed

theorem no_markers_one_source_witness:
  "map_sum id (\<lambda>r. (js_code (fst r), map entry_filename (js_sources (fst r)),
                     mapSources (js_sources (fst r))))
     (generate False {||} False {||} False (\<lambda>result imported. result)
        (newComponent ''<p>hi</p>'' (Some ''App.html'')) ''var p;'')
   = Inr (''var p;'', [Some ''App.html'', None], [(''App.html'', ''<p>hi</p>'')])"
proof -
  let ?c = "newComponent ''<p>hi</p>'' (Some ''App.html'')"
  let ?w = "\<lambda>result imported. result :: string"
  have "fst (moduleText False {||} False {||} False ?w ?c ''var p;'') = ''var p;''"
    by code_simp
  then have m: "moduleText False {||} False {||} False ?w ?c ''var p;''
      = (''var p;'', snd (moduleText False {||} False {||} False ?w ?c ''var p;''))"
    by (metis prod.collapse)
  have n: "\<not> sublist closer ''var p;''"
    by code_simp
  have f: "filename ?c = Some ''App.html''"
    by (simp add: newComponent_def)
  have s: "source ?c = ''<p>hi</p>''"
    by (simp add: newComponent_def)
  from no_markers_one_source [OF m n f] obtain g emptied where
    "generate False {||} False {||} False ?w ?c ''var p;''
        = Inr (g, snd (moduleText False {||} False {||} False ?w ?c ''var p;''))"
    "js_code g = ''var p;''"
    "js_sources g = [\<lparr>entry_filename = Some ''App.html'', content = emptied\<rparr>, addString ''var p;'']"
    "mapSources (js_sources g) = [(''App.html'', source ?c)]"
    by auto
  then show ?thesis
    by (simp add: s addString_def)
qed

subsection \<open>Child allocators\<close>

text \<open>
  Claim C8. Take the closure that \<open>getUniqueNameMaker\<close> returns, and call it after any
  further operations on the registry. The call returns a name that is not reserved, not
  a user name and not in the component's \<open>usedNames\<close> as they are at the call, and it
  leaves \<open>usedNames\<close> (and the aliases and the user names) of the component as they were.
\<close>

theorem child_allocator:
  assumes "getUniqueNameMaker reservedNames c0 = (k, c1)"
    and "performAll reservedNames test c1 ops = c"
  shows "\<exists>a c'. callMaker test c k name = Some (a, c')
      \<and> a |\<notin>| reservedNames \<and> a |\<notin>| userVars c \<and> a |\<notin>| usedNames c
      \<and> usedNames c' = usedNames c \<and> aliases c' = aliases c \<and> userVars c' = userVars c"
proof -
  from assms(1) maker_ok_new [of reservedNames c0] have "maker_ok reservedNames c1 k"
    by simp
  then have "maker_ok reservedNames c k"
    unfolding assms(2) [symmetric] by (rule maker_ok_performAll)
  then show ?thesis
    by (rule callMaker_ok)
qed

theorem child_allocator_witness:
  "\<exists>a c'. callMaker False
       (performAll {|''get''|} False
          (snd (getUniqueNameMaker {|''get''|} (newComponent [] None))) [DoGetUniqueName ''t''])
       0 ''t'' = Some (a, c')
     \<and> a = ''t_1''
     \<and> usedNames c' = {|''t''|}"
proof -
  let ?new = "newComponent [] None"
  let ?c = "performAll {|''get''|} False (snd (getUniqueNameMaker {|''get''|} ?new))
      [DoGetUniqueName ''t'']"
  have mk: "getUniqueNameMaker {|''get''|} ?new = (0, snd (getUniqueNameMaker {|''get''|} ?new))"
    by (simp add: getUniqueNameMaker_def newComponent_def)
  have used: "usedNames ?c = {|''t''|}"
    by code_simp
  have res: "map_option fst (callMaker False ?c 0 ''t'') = Some ''t_1''"
    by code_simp
  from child_allocator [OF mk refl, of False "[DoGetUniqueName ''t'']" "''t''"]
  obtain a c' where "callMaker False ?c 0 ''t'' = Some (a, c')" and "usedNames c' = usedNames ?c"
    by blast
  with used res show ?thesis
    by simp
qed

subsection \<open>Warnings for unused definitions\<close>

text \<open>
  Claim C9, as stated, has every declared and unused member of a category produce a
  warning once the unit is compiled. The members are declared in the default export of
  the script, and \<open>walkJs\<close> rejects a script with a default export: a unit that declares
  a helper \<open>double\<close> and never uses it gets the fatal error \<open>default-export\<close> from the
  constructor, so there is no compiled unit and no warning.
\<close>

theorem unused_helper_counterexample:
  "map_sum id (\<lambda>c. warnings (warnUnused (\<lambda>i. (1, int i)) (\<lambda>s l k. []) c))
     (construct {||} False (\<lambda>m n. m) ''<p>hi</p>'' (Some ''App.html'')
        (Some \<lparr>scope_declarations = [], globals = [],
                body = [ExportDefaultDeclaration 0 60
                          [Property ''helpers'' 17 58 [Property ''double'' 28 56 []]]]\<rparr>)
        ''App'')
   = Inl (ValidationError ''default-export'' ''A component cannot have a default export'' 0 60)"
  by (simp add: construct_def walkJs_def)

text \<open>
  Claim C9, amended. The pass over the categories is guarded by \<open>this.defaultExport\<close>,
  which the constructor initialises to nothing and no code assigns. For every component
  that the constructor returns, the default export is absent and the accumulator of
  warnings is empty, the pass over the unused members leaves the component as it is (no
  warning, for any category), and what \<open>generate\<close> returns (the code and its sources, or
  the error) does not depend on the accumulated warnings.
\<close>

theorem no_unused_warnings:
  assumes "construct reservedNames test removeNode src file js name = Inr c"
  shows "defaultExport c = None \<and> warnings c = []
     \<and> warnUnused locator getCodeFrame c = c
     \<and> map_sum id fst (generate ssr shared dev reservedNames test wrapModule
            (c\<lparr>warnings := ws\<rparr>) template)
       = map_sum id fst (generate ssr shared dev reservedNames test wrapModule c template)"
proof -
  from construct_fields [OF assms] have d: "defaultExport c = None" and w: "warnings c = []"
    by simp_all
  from d have "warnUnused locator getCodeFrame c = c"
    by (simp add: warnUnused_def)
  with d w show ?thesis
    by (simp add: generate_warnings)
qed

theorem no_unused_warnings_witness:
  "\<exists>c. construct {||} False (\<lambda>m n. m) ''<p>hi</p>'' (Some ''App.html'')
          (Some \<lparr>scope_declarations = [''double''], globals = [],
                  body = [OtherStatement 0 30]\<rparr>) ''App'' = Inr c
       \<and> component_name c = ''App''
       \<and> defaultExport c = None
       \<and> warnings (warnUnused (\<lambda>i. (1, int i)) (\<lambda>s l k. []) c) = []"
proof -
  let ?js = "Some \<lparr>scope_declarations = [''double''], globals = [],
                  body = [OtherStatement 0 30]\<rparr>"
  obtain c where c: "construct {||} False (\<lambda>m n. m) ''<p>hi</p>'' (Some ''App.html'') ?js ''App''
      = Inr c"
    and n: "component_name c = ''App''"
    by (simp add: construct_def walkJs_def newComponent_def alias'_def getUniqueName_def
        uniqueLoop.simps candidate_def Let_def)
  from no_unused_warnings [OF c, of "\<lambda>i. (1, int i)" "\<lambda>s l k. []"] n c show ?thesis
    by auto
qed

subsection \<open>The name of the generated class\<close>

text \<open>
  Claim C10. When the constructor gets as far as \<open>this.name\<close>, the name is
  \<open>alias (name)\<close> for the requested name: it is not reserved, it is not a user name
  (and every declaration of the script's top scope, every global and every local name
  of an import is a user name by then), and it is the requested name (with the test
  suffix, if that is on) when that is free, and otherwise that name with \<open>_k\<close> for a
  counter \<open>k \<ge> 1\<close>.
\<close>

theorem class_name_deconflicted:
  assumes "construct reservedNames test removeNode src file js name = Inr c"
  shows "component_name c |\<notin>| reservedNames
     \<and> component_name c |\<notin>| userVars c
     \<and> (\<forall>j. js = Some j \<longrightarrow>
           set (scope_declarations j) \<union> set (globals j) \<union> set (importNames (body j))
             \<subseteq> fset (userVars c))
     \<and> aliases c name = Some (component_name c)
     \<and> (let base = (if test then name @ ''$'' else name) in
          if base |\<in>| reservedNames |\<union>| userVars c
          then \<exists>k\<ge>1. component_name c = base @ ''_'' @ decimal k
          else component_name c = base)"
proof -
  from assms obtain c1 where w: "walkJs removeNode (newComponent src file) js = Inr c1"
    by (auto simp: construct_def split: sum.splits)
  from walkJs_fields [OF w] have al: "aliases c1 = Map.empty" and us: "usedNames c1 = {||}"
    and uv: "userVars c1 = (case js of None \<Rightarrow> {||}
           | Some j \<Rightarrow> fset_of_list (scope_declarations j) |\<union>| fset_of_list (globals j)
                        |\<union>| fset_of_list (importNames (body j)))"
    by (simp_all add: newComponent_def)
  let ?a = "fst (getUniqueName reservedNames test c1 name)"
  from assms w al
  have c: "c = c1\<lparr>usedNames := finsert ?a (usedNames c1),
                 aliases := (aliases c1)(name \<mapsto> ?a), component_name := ?a\<rparr>"
    by (simp add: construct_def alias'_new)
  have fresh: "?a |\<notin>| reservedNames |\<union>| userVars c1 |\<union>| usedNames c1"
    by (rule getUniqueName_fresh)
  have vars: "\<forall>j. js = Some j \<longrightarrow>
           set (scope_declarations j) \<union> set (globals j) \<union> set (importNames (body j))
             \<subseteq> fset (userVars c)"
    unfolding c using uv by (auto simp: fset_of_list.rep_eq)
  from getUniqueName_shape [of reservedNames test c1 name] us
  have shape: "let base = (if test then name @ ''$'' else name) in
          if base |\<in>| reservedNames |\<union>| userVars c
          then \<exists>k\<ge>1. component_name c = base @ ''_'' @ decimal k
          else component_name c = base"
    unfolding c Let_def by (auto split: if_splits)
  from fresh vars shape show ?thesis
    unfolding c by simp
qed

theorem class_name_deconflicted_witness:
  "\<exists>c. construct {|''get''|} False (\<lambda>m n. m) [] None
         (Some \<lparr>scope_declarations = [''App''], globals = [''window''],
                 body = [ImportDeclaration 0 24 [''get'', ''App_1'']]\<rparr>) ''App'' = Inr c
       \<and> component_name c = ''App_2''
       \<and> component_name c |\<notin>| {|''get''|}
       \<and> component_name c |\<notin>| userVars c"
proof -
  let ?js = "Some \<lparr>scope_declarations = [''App''], globals = [''window''],
                 body = [ImportDeclaration 0 24 [''get'', ''App_1'']]\<rparr>"
  obtain c where c: "construct {|''get''|} False (\<lambda>m n. m) [] None ?js ''App'' = Inr c"
    and n: "component_name c = ''App_2''"
    by (simp add: construct_def walkJs_def newComponent_def alias'_def getUniqueName_def
        uniqueLoop.simps candidate_def decimal.simps digit_def Let_def)
  from class_name_deconflicted [OF c] n c show ?thesis
    by blast
qed

end
